theory Spec2Isabelle
  imports Main "HOL-Library.Word" "HOL-Library.Signed_Division"
begin

section \<open>Machine types and library calls of the target\<close>

text \<open>
  The sketches are written for the Arduino Uno (AVR): \<open>unsigned int\<close> and \<open>uint16_t\<close> are
  16 bits wide, \<open>int\<close> is 16 bits, \<open>long\<close> and \<open>unsigned long\<close> are 32 bits.  Unsigned
  values are words (arithmetic wraps, comparison is unsigned); the signed \<open>long\<close> of
  Arduino's \<open>map\<close> is an \<open>int\<close> with the two's complement wrap written out.
\<close>

type_synonym uint8_t = "8 word"
type_synonym uint16_t = "16 word"
type_synonym ulong = "32 word"

datatype CRGB = CRGB uint8_t uint8_t uint8_t

datatype states = AWAY_STATE | PARKING_STATE | PARKED_STATE

datatype serial_out = Print string | Println string | PrintlnNum ulong

text \<open>
  Arduino.h: \<open>#define abs(x) ((x)>0?(x):-(x))\<close> and
  \<open>#define constrain(amt,low,high) ((amt)<(low)?(low):((amt)>(high)?(high):(amt)))\<close>,
  \<open>abs\<close> at the type \<open>unsigned int\<close> of its argument in \<open>parkingPingReceived\<close>.
\<close>

definition abs_macro :: "uint16_t \<Rightarrow> uint16_t" where
  "abs_macro x = (if x > 0 then x else - x)"

definition constrain :: "'a::linorder \<Rightarrow> 'a \<Rightarrow> 'a \<Rightarrow> 'a" where
  "constrain amt low high = (if amt < low then low else if amt > high then high else amt)"

text \<open>
  Arduino's \<open>long map(long x, long in_min, long in_max, long out_min, long out_max)\<close>
  returns \<open>(x - in_min) * (out_max - out_min) / (in_max - in_min) + out_min\<close>; every
  intermediate result is a 32-bit \<open>long\<close> and the division truncates towards zero.
\<close>

definition wrap_long :: "int \<Rightarrow> int" where
  "wrap_long k = (k + 2 ^ 31) mod 2 ^ 32 - 2 ^ 31"

definition map_arduino :: "int \<Rightarrow> int \<Rightarrow> int \<Rightarrow> int \<Rightarrow> int \<Rightarrow> int" where
  "map_arduino x in_min in_max out_min out_max =
     wrap_long (wrap_long (wrap_long (wrap_long (x - in_min) * wrap_long (out_max - out_min))
                           sdiv wrap_long (in_max - in_min))
                + out_min)"

text \<open>
  LightChrono keeps the \<open>millis()\<close> value of its last restart; \<open>elapsed\<close> is the
  wrapping difference to the current \<open>millis()\<close>, \<open>hasPassed(t)\<close> is \<open>elapsed() >= t\<close>.
  The current \<open>millis()\<close> value is a parameter \<open>now\<close> of every function that reads the clock.
\<close>

definition restart :: "ulong \<Rightarrow> ulong" where
  "restart now = now"

definition elapsed :: "ulong \<Rightarrow> ulong \<Rightarrow> ulong" where
  "elapsed now startTime = now - startTime"

definition hasPassed :: "ulong \<Rightarrow> ulong \<Rightarrow> ulong \<Rightarrow> bool" where
  "hasPassed now startTime timeout = (elapsed now startTime \<ge> timeout)"

text \<open>
  The frame buffer \<open>CRGB leds[NUM_LEDS]\<close> is a list.  A write through an index outside
  the array is undefined behaviour in C++; the model makes it the result \<open>None\<close>.
  The index expression \<open>NUM_LEDS-1-i\<close> is evaluated in \<open>int\<close>, so the index is an \<open>int\<close>.
\<close>

definition write_led :: "int \<Rightarrow> CRGB \<Rightarrow> CRGB list \<Rightarrow> CRGB list option" where
  "write_led idx c buf =
     (if 0 \<le> idx \<and> idx < int (length buf) then Some (buf[nat idx := c]) else None)"

text \<open>\<open>fill_solid(leds, n, c)\<close> stores \<open>c\<close> in the first \<open>n\<close> pixels.\<close>

definition fill_solid :: "CRGB list \<Rightarrow> nat \<Rightarrow> CRGB \<Rightarrow> CRGB list" where
  "fill_solid buf n c = replicate n c @ drop n buf"

text \<open>
  The render loop shared by the three sketches,
  \<^verbatim>\<open>for(uint8_t i=0; i<litLeds; i++) { color = ...; leds[i] = color; leds[NUM_LEDS-1-i] = color; }\<close>
  with the strip length \<open>n\<close> and the colour of step \<open>i\<close> as parameters.  The counter is a
  \<open>uint8_t\<close> below \<open>litLeds \<le> 255\<close>, so \<open>i++\<close> never wraps and the counter is a \<open>nat\<close>.
\<close>

function fill_mirrored ::
  "nat \<Rightarrow> (nat \<Rightarrow> CRGB) \<Rightarrow> nat \<Rightarrow> nat \<Rightarrow> CRGB list \<Rightarrow> CRGB list option" where
  "fill_mirrored n colorOf i litLeds buf =
     (if i < litLeds then
        (case write_led (int i) (colorOf i) buf of
           None \<Rightarrow> None
         | Some buf1 \<Rightarrow>
             (case write_led (int n - 1 - int i) (colorOf i) buf1 of
                None \<Rightarrow> None
              | Some buf2 \<Rightarrow> fill_mirrored n colorOf (i + 1) litLeds buf2))
      else Some buf)"
  by pat_completeness auto
termination
  by (relation "measure (\<lambda>(n, colorOf, i, litLeds, buf). litLeds - i)") auto

declare fill_mirrored.simps [simp del]

section \<open>Globals shared by the sketches\<close>

text \<open>
  Every sketch owns the frame buffer \<open>leds\<close> and drives two outputs: the lines written
  to \<open>Serial\<close> and the frame last pushed to the strip by \<open>FastLED.show()\<close>.  The two
  state machines add the current state, the entering flag and the inactivity timer.
\<close>

record outputs =
  serial :: "serial_out list"
  leds :: "CRGB list"
  strip :: "CRGB list"

record machine = outputs +
  state :: states
  isTransitioning :: bool
  inactivityTimer :: ulong

definition FastLED_show :: "'a outputs_scheme \<Rightarrow> 'a outputs_scheme" where
  "FastLED_show s = s\<lparr>strip := leds s\<rparr>"

section \<open>The state machine driven by the asynchronous sonar\<close>

subsection \<open>Config\<close>

definition NUM_LEDS :: nat where "NUM_LEDS = 24"
definition MIN_TRIGGER_DISTANCE :: uint16_t where "MIN_TRIGGER_DISTANCE = 4"
definition MAX_TRIGGER_DISTANCE :: uint16_t where "MAX_TRIGGER_DISTANCE = 100"
definition INACTIVITY_SECONDS :: ulong where "INACTIVITY_SECONDS = 5"
definition MIN_DISPLAY_DISTANCE :: uint16_t where "MIN_DISPLAY_DISTANCE = 10"
definition MAX_DISPLAY_DISTANCE :: uint16_t where "MAX_DISPLAY_DISTANCE = 80"
definition FAST_TRIGGER_INTERVAL :: nat where "FAST_TRIGGER_INTERVAL = 35"
definition SLOW_TRIGGER_INTERVAL :: nat where "SLOW_TRIGGER_INTERVAL = 250"

subsection \<open>Globals\<close>

text \<open>The globals of this sketch: those of every state machine, the last accepted
  distance, and the trigger interval last given to the sonar.\<close>

record controller = machine +
  prevDistance :: uint16_t
  triggerInterval :: nat

text \<open>
  The globals after \<open>setup()\<close>, which starts at \<open>millis() = t0\<close>: the buffer is filled with
  black and nothing has been pushed to the strip yet (its pixels power up dark).
\<close>

definition init :: "ulong \<Rightarrow> nat \<Rightarrow> controller" where
  "init t0 interval0 =
     \<lparr> serial = [Println '''', Println ''Initializing...'', Println '''', Println ''Running...''],
       leds = fill_solid (replicate NUM_LEDS (CRGB 0 0 0)) NUM_LEDS (CRGB 0 0 0),
       strip = replicate NUM_LEDS (CRGB 0 0 0),
       state = AWAY_STATE, isTransitioning = True,
       inactivityTimer = restart t0,
       prevDistance = 0,
       triggerInterval = interval0 \<rparr>"

subsection \<open>State methods\<close>

definition tickAway :: "controller \<Rightarrow> controller" where
  "tickAway s =
     (if isTransitioning s then
        s\<lparr>isTransitioning := False,
          serial := serial s @ [Println ''AWAY''],
          triggerInterval := SLOW_TRIGGER_INTERVAL\<rparr>
      else s)"

text \<open>
  The callbacks take the reading already converted,
  \<open>unsigned int distance = sensor.GetFilteredMM() * .03937\<close>, as their argument.
\<close>

definition awayPingReceived :: "uint16_t \<Rightarrow> controller \<Rightarrow> controller" where
  "awayPingReceived distance s =
     (if distance > MIN_TRIGGER_DISTANCE \<and> distance < MAX_TRIGGER_DISTANCE then
        s\<lparr>state := PARKING_STATE, isTransitioning := True\<rparr>
      else s)"

definition tickParking :: "ulong \<Rightarrow> controller \<Rightarrow> controller" where
  "tickParking now s =
     (let s1 = (if isTransitioning s then
                  s\<lparr>isTransitioning := False,
                    serial := serial s @ [Println ''PARKING''],
                    triggerInterval := FAST_TRIGGER_INTERVAL,
                    inactivityTimer := restart now\<rparr>
                else s)
      in if hasPassed now (inactivityTimer s1) (INACTIVITY_SECONDS * 1000) then
           s1\<lparr>state := PARKED_STATE, isTransitioning := True\<rparr>
         else s1)"

text \<open>
  \<open>uint8_t litLeds = (NUM_LEDS/2) - (NUM_LEDS/2) * (distance-MIN_DISPLAY_DISTANCE)
  / (MAX_DISPLAY_DISTANCE-MIN_DISPLAY_DISTANCE)\<close>: \<open>distance\<close> and the two bounds are
  \<open>unsigned int\<close>, so the whole expression is computed in 16-bit unsigned arithmetic and
  then truncated to \<open>uint8_t\<close>.
\<close>

definition litLeds_of :: "uint16_t \<Rightarrow> uint8_t" where
  "litLeds_of distance =
     ucast (of_nat (NUM_LEDS div 2)
            - of_nat (NUM_LEDS div 2) * (distance - MIN_DISPLAY_DISTANCE)
                div (MAX_DISPLAY_DISTANCE - MIN_DISPLAY_DISTANCE) :: uint16_t)"

text \<open>
  \<open>uint8_t colorIndex = 255 * i / (NUM_LEDS/2)\<close>, computed in \<open>int\<close> and truncated to
  \<open>uint8_t\<close>, with the strip length \<open>n\<close> of the sketch as a parameter.  The loop reaches
  only \<open>i < NUM_LEDS/2\<close>, where the product stays below \<open>2^15\<close> and the 16-bit \<open>int\<close>
  arithmetic is exact.
\<close>

definition colorIndex :: "nat \<Rightarrow> nat \<Rightarrow> uint8_t" where
  "colorIndex n i = of_nat (255 * i div (n div 2))"

text \<open>\<open>ColorFromPalette(pallet, colorIndex)\<close> is FastLED's; the palette lookup is the
  parameter \<open>pallet\<close>.\<close>

definition parkingPingReceived ::
  "(uint8_t \<Rightarrow> CRGB) \<Rightarrow> ulong \<Rightarrow> uint16_t \<Rightarrow> controller \<Rightarrow> controller option" where
  "parkingPingReceived pallet now distance s =
     (if distance < MIN_TRIGGER_DISTANCE \<or> distance > MAX_TRIGGER_DISTANCE then Some s
      else
        let s1 = (if abs_macro (distance - prevDistance s) > 4 then
                    s\<lparr>prevDistance := distance, inactivityTimer := restart now\<rparr>
                  else s);
            distance1 = constrain distance MIN_DISPLAY_DISTANCE MAX_DISPLAY_DISTANCE;
            litLeds = litLeds_of distance1
        in (case fill_mirrored NUM_LEDS (\<lambda>i. pallet (colorIndex NUM_LEDS i)) 0 (unat litLeds) (leds s1) of
              None \<Rightarrow> None
            | Some buf \<Rightarrow> Some (FastLED_show (s1\<lparr>leds := buf\<rparr>))))"

text \<open>\<open>FastLED.delay\<close> keeps calling \<open>show()\<close> while it waits.\<close>

definition tickParked :: "controller \<Rightarrow> controller" where
  "tickParked s =
     (if isTransitioning s then
        (let s1 = s\<lparr>isTransitioning := False, serial := serial s @ [Println ''PARKED'']\<rparr>;
             s2 = FastLED_show s1;
             s3 = s2\<lparr>leds := fill_solid (leds s2) NUM_LEDS (CRGB 0 0 0)\<rparr>;
             s4 = FastLED_show s3
         in s4\<lparr>triggerInterval := SLOW_TRIGGER_INTERVAL\<rparr>)
      else s)"

definition parkedPingReceived :: "uint16_t \<Rightarrow> controller \<Rightarrow> controller" where
  "parkedPingReceived distance s =
     (if distance > MAX_TRIGGER_DISTANCE then
        s\<lparr>state := AWAY_STATE, isTransitioning := True\<rparr>
      else s)"

subsection \<open>Sonar callbacks and the loop\<close>

definition PingRecieved ::
  "(uint8_t \<Rightarrow> CRGB) \<Rightarrow> ulong \<Rightarrow> uint16_t \<Rightarrow> controller \<Rightarrow> controller option" where
  "PingRecieved pallet now distance s =
     (case state s of
        PARKING_STATE \<Rightarrow> parkingPingReceived pallet now distance s
      | PARKED_STATE \<Rightarrow> Some (parkedPingReceived distance s)
      | AWAY_STATE \<Rightarrow> Some (awayPingReceived distance s))"

definition PingTimeout :: "controller \<Rightarrow> controller" where
  "PingTimeout s =
     (case state s of
        PARKED_STATE \<Rightarrow>
          s\<lparr>serial := serial s @ [Println ''Timed out''],
            state := AWAY_STATE, isTransitioning := True\<rparr>
      | _ \<Rightarrow> s)"

text \<open>What \<open>sonar.Update\<close> dispatches in one iteration of the loop: nothing, a reading
  or a timeout.\<close>

datatype sonar_event = NoEvent | Ping uint16_t | Timeout

definition sonar_Update ::
  "(uint8_t \<Rightarrow> CRGB) \<Rightarrow> ulong \<Rightarrow> sonar_event \<Rightarrow> controller \<Rightarrow> controller option" where
  "sonar_Update pallet now ev s =
     (case ev of
        NoEvent \<Rightarrow> Some s
      | Ping distance \<Rightarrow> PingRecieved pallet now distance s
      | Timeout \<Rightarrow> Some (PingTimeout s))"

definition tick :: "ulong \<Rightarrow> controller \<Rightarrow> controller" where
  "tick now s =
     (case state s of
        AWAY_STATE \<Rightarrow> tickAway s
      | PARKING_STATE \<Rightarrow> tickParking now s
      | PARKED_STATE \<Rightarrow> tickParked s)"

definition loop ::
  "(uint8_t \<Rightarrow> CRGB) \<Rightarrow> ulong \<times> sonar_event \<Rightarrow> controller \<Rightarrow> controller option" where
  "loop pallet step s =
     (case sonar_Update pallet (fst step) (snd step) s of
        None \<Rightarrow> None
      | Some s1 \<Rightarrow> Some (tick (fst step) s1))"

fun run ::
  "(uint8_t \<Rightarrow> CRGB) \<Rightarrow> (ulong \<times> sonar_event) list \<Rightarrow> controller \<Rightarrow> controller option" where
  "run pallet [] s = Some s"
| "run pallet (step # steps) s =
     (case loop pallet step s of None \<Rightarrow> None | Some s1 \<Rightarrow> run pallet steps s1)"

text \<open>
  \<open>outside_parking pallet steps s\<close>: along the iterations \<open>steps\<close> from \<open>s\<close> the sonar
  delivers no reading while the controller is in the Parking state.
\<close>

fun outside_parking ::
  "(uint8_t \<Rightarrow> CRGB) \<Rightarrow> (ulong \<times> sonar_event) list \<Rightarrow> controller \<Rightarrow> bool" where
  "outside_parking pallet [] s = True"
| "outside_parking pallet (step # steps) s =
     ((state s \<noteq> PARKING_STATE \<or> snd step = NoEvent \<or> snd step = Timeout) \<and>
      (case loop pallet step s of
         None \<Rightarrow> False
       | Some s1 \<Rightarrow> outside_parking pallet steps s1))"

section \<open>The state machine that polls the sensor\<close>

subsection \<open>Config\<close>

definition NUM_LEDS_poll :: nat where "NUM_LEDS_poll = 10"
definition FRAMES_PER_SECOND :: ulong where "FRAMES_PER_SECOND = 60"
definition SWEET_SPOT :: uint16_t where "SWEET_SPOT = 31"
definition MIN_DISTANCE :: uint16_t where "MIN_DISTANCE = 2"
definition MAX_DISTANCE :: uint16_t where "MAX_DISTANCE = 400"
definition INFREQUENT_READS_PER_SECOND :: ulong where "INFREQUENT_READS_PER_SECOND = 2"
definition MAX_READS_PER_SECOND :: ulong where "MAX_READS_PER_SECOND = 10"

subsection \<open>Globals\<close>

record poll_controller = machine +
  level :: uint8_t
  readTimer :: ulong
  nextFrameTimer :: ulong

definition init_poll :: "ulong \<Rightarrow> poll_controller" where
  "init_poll t0 =
     \<lparr> serial = [Println '''', Println ''Initializing...'', Println '''', Println ''Running...''],
       leds = fill_solid (replicate NUM_LEDS_poll (CRGB 0 0 0)) NUM_LEDS_poll (CRGB 0 0 0),
       strip = replicate NUM_LEDS_poll (CRGB 0 0 0),
       state = AWAY_STATE, isTransitioning = True,
       inactivityTimer = restart t0,
       level = 0,
       readTimer = restart t0,
       nextFrameTimer = restart t0 \<rparr>"

subsection \<open>State methods\<close>

text \<open>
  Each tick takes the current \<open>millis()\<close> and the value \<open>readDistance()\<close> returns if the
  tick calls it (centimetres, 0 after a sensor timeout).
  \<open>hasPassed(t, true)\<close> restarts the timer when it has passed.

  \<open>level = map(distance, MIN_DISTANCE, MAX_DISTANCE, 255, 0)\<close> converts the
  \<open>unsigned long\<close> reading to \<open>long\<close> and truncates the \<open>long\<close> result to \<open>uint8_t\<close>.
\<close>

definition level_of :: "ulong \<Rightarrow> uint8_t" where
  "level_of distance =
     (if distance \<le> ucast SWEET_SPOT then 255
      else word_of_int (map_arduino (sint distance) (uint MIN_DISTANCE) (uint MAX_DISTANCE) 255 0))"

text \<open>\<open>uint8_t litLeds = (NUM_LEDS/2) * level / 255\<close>, in \<open>int\<close>: at most \<open>5 * 255\<close>.\<close>

definition litLeds_poll :: "uint8_t \<Rightarrow> uint8_t" where
  "litLeds_poll lvl = of_nat ((NUM_LEDS_poll div 2) * unat lvl div 255)"

definition tickParking_poll ::
  "(uint8_t \<Rightarrow> CRGB) \<Rightarrow> ulong \<Rightarrow> ulong \<Rightarrow> poll_controller \<Rightarrow> poll_controller option" where
  "tickParking_poll pallet now reading s =
     (let s1 = (if isTransitioning s then
                  s\<lparr>isTransitioning := False,
                    serial := serial s @ [Println ''PARKING''],
                    inactivityTimer := restart now,
                    readTimer := restart now,
                    nextFrameTimer := restart now\<rparr>
                else s);
          s2 = (if hasPassed now (inactivityTimer s1) (INACTIVITY_SECONDS * 1000) then
                  s1\<lparr>state := PARKED_STATE, isTransitioning := True\<rparr>
                else s1);
          s3 = (if hasPassed now (readTimer s2) (1000 div MAX_READS_PER_SECOND) then
                  (let r = s2\<lparr>readTimer := restart now,
                              serial := serial s2 @ [Print ''Distance: '', PrintlnNum reading]\<rparr>
                   in if reading > 0 then
                        r\<lparr>inactivityTimer := restart now, level := level_of reading\<rparr>
                      else r)
                else s2)
      in if hasPassed now (nextFrameTimer s3) (1000 div FRAMES_PER_SECOND) then
           (let s4 = s3\<lparr>nextFrameTimer := restart now\<rparr>;
                litLeds = litLeds_poll (level s4)
            in (case fill_mirrored NUM_LEDS_poll (\<lambda>i. pallet (colorIndex NUM_LEDS_poll i)) 0
                       (unat litLeds) (leds s4) of
                  None \<Rightarrow> None
                | Some buf \<Rightarrow> Some (FastLED_show (s4\<lparr>leds := buf\<rparr>))))
         else Some s3)"

definition tickParked_poll :: "ulong \<Rightarrow> ulong \<Rightarrow> poll_controller \<Rightarrow> poll_controller" where
  "tickParked_poll now reading s =
     (let s1 = (if isTransitioning s then
                  (let a = s\<lparr>isTransitioning := False, serial := serial s @ [Println ''PARKED'']\<rparr>;
                       b = FastLED_show a;
                       c = b\<lparr>leds := fill_solid (leds b) NUM_LEDS_poll (CRGB 0 0 0)\<rparr>;
                       d = FastLED_show c
                   in d\<lparr>readTimer := restart now\<rparr>)
                else s)
      in if hasPassed now (readTimer s1) (1000 div INFREQUENT_READS_PER_SECOND) then
           (let r = s1\<lparr>readTimer := restart now,
                       serial := serial s1 @ [Print ''Distance: '', PrintlnNum reading]\<rparr>
            in if reading > 0 then r\<lparr>state := AWAY_STATE, isTransitioning := True\<rparr> else r)
         else s1)"

definition tickAway_poll :: "ulong \<Rightarrow> ulong \<Rightarrow> poll_controller \<Rightarrow> poll_controller" where
  "tickAway_poll now reading s =
     (let s1 = (if isTransitioning s then
                  s\<lparr>isTransitioning := False, serial := serial s @ [Println ''AWAY'']\<rparr>
                else s)
      in if hasPassed now (readTimer s1) (1000 div INFREQUENT_READS_PER_SECOND) then
           (let r = s1\<lparr>readTimer := restart now,
                       serial := serial s1 @ [Print ''Distance: '', PrintlnNum reading]\<rparr>
            in if reading > 0 then r\<lparr>state := PARKING_STATE, isTransitioning := True\<rparr> else r)
         else s1)"

definition loop_poll ::
  "(uint8_t \<Rightarrow> CRGB) \<Rightarrow> ulong \<Rightarrow> ulong \<Rightarrow> poll_controller \<Rightarrow> poll_controller option" where
  "loop_poll pallet now reading s =
     (case state s of
        AWAY_STATE \<Rightarrow> Some (tickAway_poll now reading s)
      | PARKING_STATE \<Rightarrow> tickParking_poll pallet now reading s
      | PARKED_STATE \<Rightarrow> Some (tickParked_poll now reading s))"

section \<open>The sketch without a state machine (parking\_helper.ino)\<close>

definition NUM_LEDS_ino :: nat where "NUM_LEDS_ino = 10"

text \<open>
  \<open>uint8_t litLeds = constrain(map(distance, 30, 305, 0, NUM_LEDS/2), 0, NUM_LEDS/2)\<close>:
  the \<open>unsigned long\<close> reading becomes the \<open>long\<close> argument of \<open>map\<close>.
\<close>

definition litLeds_ino :: "ulong \<Rightarrow> uint8_t" where
  "litLeds_ino distance =
     word_of_int (constrain (map_arduino (sint distance) 30 305 0 (int (NUM_LEDS_ino div 2)))
                            0 (int (NUM_LEDS_ino div 2)))"

text \<open>The palette position \<open>255-255*i/(NUM_LEDS/2)\<close>, an \<open>int\<close> passed as \<open>uint8_t\<close>.\<close>

definition colorIndex_ino :: "nat \<Rightarrow> uint8_t" where
  "colorIndex_ino i = word_of_int (255 - 255 * int i div int (NUM_LEDS_ino div 2))"

text \<open>One iteration of \<open>loop()\<close>, with the value \<open>readDistance()\<close> returns.\<close>

definition loop_ino :: "(uint8_t \<Rightarrow> CRGB) \<Rightarrow> ulong \<Rightarrow> outputs \<Rightarrow> outputs option" where
  "loop_ino pallet distance s =
     (let s1 = s\<lparr>serial := serial s @ [Print ''Distance: '', PrintlnNum distance]\<rparr>;
          litLeds = litLeds_ino distance;
          s2 = s1\<lparr>serial := serial s1 @ [Print ''Fit LEDs: '', PrintlnNum (ucast litLeds)]\<rparr>;
          s3 = s2\<lparr>leds := fill_solid (leds s2) NUM_LEDS_ino (CRGB 0 0 0)\<rparr>
      in (case fill_mirrored NUM_LEDS_ino (\<lambda>i. pallet (colorIndex_ino i)) 0
                 (unat litLeds) (leds s3) of
            None \<Rightarrow> None
          | Some buf \<Rightarrow> Some (FastLED_show (FastLED_show (s3\<lparr>leds := buf\<rparr>)))))"

section \<open>Auxiliary facts\<close>

lemma unat_lit_aux:
  fixes x :: "16 word"
  assumes "unat x \<le> 70"
  shows "unat (12 - 12 * x div 70) = 12 - 12 * unat x div 70"
proof -
  have "unat (12 :: 16 word) * unat x < 2 ^ LENGTH(16)"
    using assms by simp
  then have "unat (12 * x) = unat (12 :: 16 word) * unat x"
    by (rule unat_mult_lem [THEN iffD1])
  then have c: "unat (12 * x div 70) = 12 * unat x div 70"
    by (simp add: unat_div)
  have "12 * unat x div 70 \<le> 12" using assms by simp
  then have e: "12 * x div 70 \<le> 12"
    using c by (simp add: word_le_nat_alt)
  show ?thesis
    using c unat_sub [OF e] by simp
qed

lemma unat_litLeds_of:
  assumes "10 \<le> d" "d \<le> 80"
  shows "unat (litLeds_of d) = 12 - 12 * (unat d - 10) div 70"
proof -
  have d: "10 \<le> unat d" "unat d \<le> 80" using assms by (simp_all add: word_le_nat_alt)
  have a: "unat (d - 10) = unat d - 10" using assms by (simp add: unat_sub)
  define x where "x = d - 10"
  have x: "unat x \<le> 70" using a d by (simp add: x_def)
  have "litLeds_of d = ucast (12 - 12 * x div 70)"
    by (simp add: litLeds_of_def NUM_LEDS_def MIN_DISPLAY_DISTANCE_def MAX_DISPLAY_DISTANCE_def x_def)
  then have "unat (litLeds_of d) = unat (12 - 12 * x div 70) mod 256"
    by (simp add: unsigned_ucast_eq take_bit_eq_mod)
  also have "\<dots> = (12 - 12 * unat x div 70) mod 256"
    by (simp only: unat_lit_aux [OF x])
  also have "\<dots> = 12 - 12 * unat x div 70" by simp
  finally show ?thesis using a by (simp add: x_def)
qed

lemma fill_mirrored_nth:
  assumes "length buf = n" "litLeds \<le> n div 2"
  shows "\<exists>buf'. fill_mirrored n colorOf i litLeds buf = Some buf' \<and> length buf' = n \<and>
           (\<forall>k<n. buf' ! k = (if i \<le> k \<and> k < litLeds then colorOf k
                               else if i \<le> n - 1 - k \<and> n - 1 - k < litLeds then colorOf (n - 1 - k)
                               else buf ! k))"
  using assms
proof (induction n colorOf i litLeds buf rule: fill_mirrored.induct)
  case (1 n colorOf i litLeds buf)
  show ?case
  proof (cases "i < litLeds")
    case False
    then show ?thesis using "1.prems" by (subst fill_mirrored.simps) auto
  next
    case True
    let ?b1 = "buf[i := colorOf i]"
    let ?b2 = "?b1[n - 1 - i := colorOf i]"
    have in1: "i < n" using True 1 by simp
    have w1: "write_led (int i) (colorOf i) buf = Some ?b1"
      using in1 1 by (simp add: write_led_def)
    have w2: "write_led (int n - 1 - int i) (colorOf i) ?b1 = Some ?b2"
      using in1 1 by (simp add: write_led_def nat_diff_distrib')
    have step: "fill_mirrored n colorOf i litLeds buf = fill_mirrored n colorOf (i + 1) litLeds ?b2"
      using True w1 w2 by (subst fill_mirrored.simps) simp
    have len2: "length ?b2 = n" using "1.prems" by simp
    from "1.IH" [OF True w1 w2 len2 "1.prems"(2)]
    obtain buf' where b': "fill_mirrored n colorOf (i + 1) litLeds ?b2 = Some buf'" "length buf' = n"
      "\<forall>k<n. buf' ! k = (if i + 1 \<le> k \<and> k < litLeds then colorOf k
                               else if i + 1 \<le> n - 1 - k \<and> n - 1 - k < litLeds then colorOf (n - 1 - k)
                               else ?b2 ! k)"
      by auto
    have "\<forall>k<n. buf' ! k = (if i \<le> k \<and> k < litLeds then colorOf k
                               else if i \<le> n - 1 - k \<and> n - 1 - k < litLeds then colorOf (n - 1 - k)
                               else buf ! k)"
    proof (intro allI impI)
      fix k assume k: "k < n"
      show "buf' ! k = (if i \<le> k \<and> k < litLeds then colorOf k
                               else if i \<le> n - 1 - k \<and> n - 1 - k < litLeds then colorOf (n - 1 - k)
                               else buf ! k)"
      proof (cases "k = i \<or> k = n - 1 - i")
        case True
        then show ?thesis
          using b'(3) k \<open>i < litLeds\<close> "1.prems" in1
          by (auto simp: nth_list_update)
      next
        case False
        then have "k \<noteq> i" "k \<noteq> n - 1 - i" by auto
        moreover have "i \<le> k \<longleftrightarrow> i + 1 \<le> k" using \<open>k \<noteq> i\<close> by auto
        moreover have "i \<le> n - 1 - k \<longleftrightarrow> i + 1 \<le> n - 1 - k"
          using \<open>k \<noteq> n - 1 - i\<close> k in1 by auto
        ultimately show ?thesis
          using b'(3) k "1.prems" in1 by (simp add: nth_list_update)
      qed
    qed
    with b' step show ?thesis by simp
  qed
qed

lemma constrain_display:
  "10 \<le> constrain d MIN_DISPLAY_DISTANCE MAX_DISPLAY_DISTANCE"
  "constrain d MIN_DISPLAY_DISTANCE MAX_DISPLAY_DISTANCE \<le> 80"
  by (auto simp: constrain_def MIN_DISPLAY_DISTANCE_def MAX_DISPLAY_DISTANCE_def)

lemma constrain_mono:
  fixes a b :: "'a::linorder"
  assumes "a \<le> b" "lo \<le> hi"
  shows "constrain a lo hi \<le> constrain b lo hi"
  using assms by (auto simp: constrain_def)

lemma litLeds_of_le:
  "unat (litLeds_of (constrain d MIN_DISPLAY_DISTANCE MAX_DISPLAY_DISTANCE)) \<le> NUM_LEDS div 2"
  by (simp add: unat_litLeds_of [OF constrain_display] NUM_LEDS_def)

lemma litLeds_of_mono:
  assumes "d1 \<le> d2"
  shows "litLeds_of (constrain d2 MIN_DISPLAY_DISTANCE MAX_DISPLAY_DISTANCE)
           \<le> litLeds_of (constrain d1 MIN_DISPLAY_DISTANCE MAX_DISPLAY_DISTANCE)"
proof -
  let ?c1 = "constrain d1 MIN_DISPLAY_DISTANCE MAX_DISPLAY_DISTANCE"
  let ?c2 = "constrain d2 MIN_DISPLAY_DISTANCE MAX_DISPLAY_DISTANCE"
  have "?c1 \<le> ?c2"
    using assms by (intro constrain_mono) (simp_all add: MIN_DISPLAY_DISTANCE_def MAX_DISPLAY_DISTANCE_def)
  then have "unat ?c1 \<le> unat ?c2" by (simp add: word_le_nat_alt)
  then have "12 * (unat ?c1 - 10) div 70 \<le> 12 * (unat ?c2 - 10) div 70"
    by (intro div_le_mono mult_le_mono2 diff_le_mono)
  then have "unat (litLeds_of ?c2) \<le> unat (litLeds_of ?c1)"
    by (simp only: unat_litLeds_of [OF constrain_display] diff_le_mono2)
  then show ?thesis by (simp add: word_le_nat_alt)
qed

lemma unat_litLeds_poll: "unat (litLeds_poll lvl) = 5 * unat lvl div 255"
proof -
  have "unat lvl < 256" using unsigned_less [of lvl] by simp
  then have "5 * unat lvl div 255 < 256" by simp
  then show ?thesis
    by (simp add: litLeds_poll_def NUM_LEDS_poll_def unat_of_nat)
qed

lemma litLeds_poll_le: "unat (litLeds_poll lvl) \<le> NUM_LEDS_poll div 2"
proof -
  have "unat lvl < 256" using unsigned_less [of lvl] by simp
  then show ?thesis by (simp add: unat_litLeds_poll NUM_LEDS_poll_def)
qed

lemma constrain_between:
  fixes x :: int
  assumes "lo \<le> hi"
  shows "lo \<le> constrain x lo hi \<and> constrain x lo hi \<le> hi"
  using assms by (auto simp: constrain_def)

lemma uint_litLeds_ino:
  "uint (litLeds_ino e) = constrain (map_arduino (sint e) 30 305 0 5) 0 5"
proof -
  let ?c = "constrain (map_arduino (sint e) 30 305 0 5) 0 (5::int)"
  have "0 \<le> ?c \<and> ?c \<le> 5" by (rule constrain_between) simp
  then have "uint (word_of_int ?c :: uint8_t) = ?c"
    by (simp add: uint_word_of_int take_bit_eq_mod)
  then show ?thesis by (simp add: litLeds_ino_def NUM_LEDS_ino_def)
qed

lemma litLeds_ino_le: "unat (litLeds_ino e) \<le> NUM_LEDS_ino div 2"
proof -
  have "uint (litLeds_ino e) \<le> 5"
    using constrain_between [of 0 5 "map_arduino (sint e) 30 305 0 5"]
    by (simp add: uint_litLeds_ino)
  moreover have "unat (litLeds_ino e) = nat (uint (litLeds_ino e))" by simp
  ultimately have "unat (litLeds_ino e) \<le> 5" by linarith
  then show ?thesis by (simp add: NUM_LEDS_ino_def)
qed

lemma wrap_long_id:
  assumes "- (2 ^ 31) \<le> k" "k < 2 ^ 31"
  shows "wrap_long k = k"
  using assms by (simp add: wrap_long_def)

lemma sdiv_mono:
  fixes a b c :: int
  assumes "a \<le> b" "0 < c"
  shows "a sdiv c \<le> b sdiv c"
proof -
  consider "0 \<le> a" | "a < 0" "0 \<le> b" | "a < 0" "b < 0" by linarith
  then show ?thesis
  proof cases
    case 1
    then have "0 \<le> b" using assms by simp
    have "a div c \<le> b div c" using assms by (simp add: zdiv_mono1)
    then show ?thesis using 1 \<open>0 \<le> b\<close> assms
      by (simp add: signed_divide_int_def sgn_if pos_imp_zdiv_nonneg_iff)
  next
    case 2
    have "0 \<le> (- a) div c" using 2 assms by (simp add: pos_imp_zdiv_nonneg_iff)
    moreover have "0 \<le> b div c" using 2 assms by (simp add: pos_imp_zdiv_nonneg_iff)
    ultimately show ?thesis using 2 assms
      by (simp add: signed_divide_int_def sgn_if)
  next
    case 3
    have "(- b) div c \<le> (- a) div c" using assms by (simp add: zdiv_mono1)
    then show ?thesis using 3 assms
      by (simp add: signed_divide_int_def sgn_if)
  qed
qed

lemma map_arduino_ino_int:
  assumes "0 \<le> x" "x \<le> 17000"
  shows "map_arduino x 30 305 0 5 = ((x - 30) * 5) sdiv 275"
proof -
  have w1: "wrap_long (x - 30) = x - 30"
    using assms by (intro wrap_long_id) simp_all
  have w2: "wrap_long ((x - 30) * 5) = (x - 30) * 5"
    using assms by (intro wrap_long_id) simp_all
  have lo: "(- 150) sdiv 275 \<le> ((x - 30) * 5) sdiv (275 :: int)"
    using assms by (intro sdiv_mono) simp_all
  have hi: "((x - 30) * 5) sdiv 275 \<le> (84850 :: int) sdiv 275"
    using assms by (intro sdiv_mono) simp_all
  have w3: "wrap_long (((x - 30) * 5) sdiv 275) = ((x - 30) * 5) sdiv 275"
    using lo hi by (intro wrap_long_id) (simp_all add: signed_divide_int_def)
  have c: "wrap_long (5 - 0) = 5" "wrap_long (305 - 30) = 275"
    by (simp_all add: wrap_long_def)
  show ?thesis
    unfolding map_arduino_def by (simp only: w1 c w2 w3 add_0_right)
qed

lemma sint_small:
  assumes "e \<le> (17000 :: ulong)"
  shows "0 \<le> sint e \<and> sint e \<le> 17000 \<and> sint e = uint e"
proof -
  define x where "x = uint e"
  have x: "0 \<le> x" "x \<le> 17000" using assms by (simp_all add: x_def word_le_def)
  have "signed_take_bit 31 x = x"
    using x by (intro signed_take_bit_int_eq_self) simp_all
  then have "sint e = x" by (simp add: sint_uint x_def)
  then show ?thesis using x by (simp add: x_def)
qed

lemma map_arduino_ino:
  assumes "e \<le> (17000 :: ulong)"
  shows "map_arduino (sint e) 30 305 0 5 = ((uint e - 30) * 5) sdiv 275"
  using sint_small [OF assms] map_arduino_ino_int [of "sint e"] by simp

lemma litLeds_ino_mono:
  assumes "e1 \<le> e2" "e2 \<le> 17000"
  shows "litLeds_ino e1 \<le> litLeds_ino e2"
proof -
  have e1: "e1 \<le> 17000" using assms by simp
  have "uint e1 \<le> uint e2" using assms by (simp add: word_le_def)
  then have "((uint e1 - 30) * 5) sdiv 275 \<le> ((uint e2 - 30) * 5) sdiv 275"
    by (intro sdiv_mono) simp_all
  then have "uint (litLeds_ino e1) \<le> uint (litLeds_ino e2)"
    unfolding uint_litLeds_ino map_arduino_ino [OF e1] map_arduino_ino [OF assms(2)]
    by (intro constrain_mono) simp_all
  then show ?thesis by (simp add: word_le_def)
qed

lemma mirrored_nth:
  "rev buf = buf \<longleftrightarrow> (\<forall>k<length buf. buf ! k = buf ! (length buf - 1 - k))"
proof
  assume r: "rev buf = buf"
  show "\<forall>k<length buf. buf ! k = buf ! (length buf - 1 - k)"
  proof (intro allI impI)
    fix k assume "k < length buf"
    then have "rev buf ! k = buf ! (length buf - Suc k)" by (rule rev_nth)
    then have h: "buf ! k = buf ! (length buf - Suc k)" by (simp only: r)
    have e: "length buf - Suc k = length buf - 1 - k" by simp
    from h show "buf ! k = buf ! (length buf - 1 - k)" unfolding e .
  qed
next
  assume a: "\<forall>k<length buf. buf ! k = buf ! (length buf - 1 - k)"
  show "rev buf = buf"
  proof (rule nth_equalityI)
    show "length (rev buf) = length buf" by simp
  next
    fix k assume "k < length (rev buf)"
    then have k: "k < length buf" by simp
    then have 1: "rev buf ! k = buf ! (length buf - Suc k)" by (rule rev_nth)
    have 2: "buf ! k = buf ! (length buf - 1 - k)" using a k by blast
    have 3: "length buf - 1 - k = length buf - Suc k" by simp
    show "rev buf ! k = buf ! k" by (simp only: 1 2 3)
  qed
qed

lemma mirrored_nth_n:
  assumes "length buf = n" "rev buf = buf"
  shows "\<forall>i<n. buf ! i = buf ! (n - 1 - i)"
  using mirrored_nth [THEN iffD1, OF assms(2)] unfolding assms(1) .

lemma fill_mirrored_ok:
  assumes "length buf = n" "litLeds \<le> n div 2" "rev buf = buf"
  shows "\<exists>buf'. fill_mirrored n colorOf 0 litLeds buf = Some buf' \<and> length buf' = n \<and> rev buf' = buf'"
proof -
  from fill_mirrored_nth [OF assms(1,2), of colorOf 0]
  obtain buf' where b: "fill_mirrored n colorOf 0 litLeds buf = Some buf'" "length buf' = n"
    and nth: "\<forall>k<n. buf' ! k = (if 0 \<le> k \<and> k < litLeds then colorOf k
                               else if 0 \<le> n - 1 - k \<and> n - 1 - k < litLeds then colorOf (n - 1 - k)
                               else buf ! k)"
    by blast
  have sym: "\<forall>k<n. buf ! k = buf ! (n - 1 - k)"
    using assms(1,3) by (rule mirrored_nth_n)
  have "buf' ! k = buf' ! (n - 1 - k)" if "k < n" for k
  proof -
    have k': "n - 1 - k < n" using that by simp
    have kk: "n - 1 - (n - 1 - k) = k" using that by simp
    have excl: "\<not> (k < litLeds \<and> n - 1 - k < litLeds)" using assms(2) that by linarith
    have 1: "buf' ! k = (if k < litLeds then colorOf k
                               else if n - 1 - k < litLeds then colorOf (n - 1 - k)
                               else buf ! k)"
      using nth that by simp
    have 2: "buf' ! (n - 1 - k) = (if n - 1 - k < litLeds then colorOf (n - 1 - k)
                               else if k < litLeds then colorOf k
                               else buf ! (n - 1 - k))"
      using nth k' kk by simp
    have 3: "buf ! k = buf ! (n - 1 - k)" using sym that by blast
    show ?thesis
      unfolding 1 2 using excl 3 by (cases "k < litLeds"; cases "n - 1 - k < litLeds") simp_all
  qed
  then have "\<forall>k<length buf'. buf' ! k = buf' ! (length buf' - 1 - k)"
    unfolding b(2) by blast
  then have "rev buf' = buf'" by (rule mirrored_nth [THEN iffD2])
  with b show ?thesis by blast
qed

lemma parkingPing_in_band:
  assumes band: "\<not> (d < MIN_TRIGGER_DISTANCE \<or> d > MAX_TRIGGER_DISTANCE)"
    and len: "length (leds s) = NUM_LEDS" and sym: "rev (leds s) = leds s"
  shows "\<exists>buf. fill_mirrored NUM_LEDS (\<lambda>i. pallet (colorIndex NUM_LEDS i)) 0
                 (unat (litLeds_of (constrain d MIN_DISPLAY_DISTANCE MAX_DISPLAY_DISTANCE)))
                 (leds s) = Some buf \<and>
               length buf = NUM_LEDS \<and> rev buf = buf \<and>
               parkingPingReceived pallet now d s =
                 Some ((if abs_macro (d - prevDistance s) > 4
                        then s\<lparr>prevDistance := d, inactivityTimer := now\<rparr> else s)
                       \<lparr>leds := buf, strip := buf\<rparr>)"
proof -
  let ?lit = "unat (litLeds_of (constrain d MIN_DISPLAY_DISTANCE MAX_DISPLAY_DISTANCE))"
  from fill_mirrored_ok [OF len litLeds_of_le sym]
  obtain buf where buf: "fill_mirrored NUM_LEDS (\<lambda>i. pallet (colorIndex NUM_LEDS i)) 0 ?lit (leds s) = Some buf"
    "length buf = NUM_LEDS" "rev buf = buf" by blast
  show ?thesis
  proof (cases "abs_macro (d - prevDistance s) > 4")
    case True
    then have "parkingPingReceived pallet now d s =
        Some (s\<lparr>prevDistance := d, inactivityTimer := now, leds := buf, strip := buf\<rparr>)"
      using band buf(1) by (simp add: parkingPingReceived_def Let_def FastLED_show_def restart_def)
    then show ?thesis using buf True by simp
  next
    case False
    then have "parkingPingReceived pallet now d s = Some (s\<lparr>leds := buf, strip := buf\<rparr>)"
      using band buf(1) by (simp add: parkingPingReceived_def Let_def FastLED_show_def restart_def)
    then show ?thesis using buf False by simp
  qed
qed

lemma parkingPing_out_of_band:
  assumes "d < MIN_TRIGGER_DISTANCE \<or> d > MAX_TRIGGER_DISTANCE"
  shows "parkingPingReceived pallet now d s = Some s"
  using assms by (simp add: parkingPingReceived_def)

lemma tick_frame:
  assumes "length (leds s) = NUM_LEDS" "rev (leds s) = leds s"
  shows "length (leds (tick now s)) = NUM_LEDS \<and> rev (leds (tick now s)) = leds (tick now s)"
  using assms
  by (cases "state s")
     (simp_all add: tick_def tickAway_def tickParking_def tickParked_def Let_def
        FastLED_show_def fill_solid_def)

lemma tick_prevDistance: "prevDistance (tick now s) = prevDistance s"
  by (cases "state s")
     (simp_all add: tick_def tickAway_def tickParking_def tickParked_def Let_def
        FastLED_show_def)

lemma sonar_Update_frame:
  assumes "length (leds s) = NUM_LEDS" "rev (leds s) = leds s"
  shows "\<exists>s'. sonar_Update pallet now ev s = Some s' \<and>
              length (leds s') = NUM_LEDS \<and> rev (leds s') = leds s'"
proof (cases ev)
  case NoEvent
  then show ?thesis using assms by (simp add: sonar_Update_def)
next
  case (Ping d)
  show ?thesis
  proof (cases "state s")
    case PARKING_STATE
    show ?thesis
    proof (cases "d < MIN_TRIGGER_DISTANCE \<or> d > MAX_TRIGGER_DISTANCE")
      case True
      then show ?thesis using Ping PARKING_STATE assms
        by (simp add: sonar_Update_def PingRecieved_def parkingPing_out_of_band)
    next
      case False
      from parkingPing_in_band [OF False assms, of pallet now]
      obtain buf where "length buf = NUM_LEDS" "rev buf = buf"
        "parkingPingReceived pallet now d s =
                 Some ((if abs_macro (d - prevDistance s) > 4
                        then s\<lparr>prevDistance := d, inactivityTimer := now\<rparr> else s)
                       \<lparr>leds := buf, strip := buf\<rparr>)" by blast
      then show ?thesis using Ping PARKING_STATE
        by (simp add: sonar_Update_def PingRecieved_def)
    qed
  qed (use Ping assms in \<open>simp_all add: sonar_Update_def PingRecieved_def
          awayPingReceived_def parkedPingReceived_def\<close>)
next
  case Timeout
  then show ?thesis using assms
    by (cases "state s") (simp_all add: sonar_Update_def PingTimeout_def)
qed

lemma loop_frame:
  assumes "length (leds s) = NUM_LEDS" "rev (leds s) = leds s"
  shows "\<exists>s'. loop pallet step s = Some s' \<and>
              length (leds s') = NUM_LEDS \<and> rev (leds s') = leds s'"
proof -
  from sonar_Update_frame [OF assms, of pallet "fst step" "snd step"]
  obtain s1 where s1: "sonar_Update pallet (fst step) (snd step) s = Some s1"
    "length (leds s1) = NUM_LEDS" "rev (leds s1) = leds s1" by blast
  then show ?thesis using tick_frame [OF s1(2,3), of "fst step"]
    by (simp add: loop_def)
qed

lemma run_frame:
  assumes "length (leds s) = NUM_LEDS" "rev (leds s) = leds s"
  shows "\<exists>s'. run pallet steps s = Some s' \<and>
              length (leds s') = NUM_LEDS \<and> rev (leds s') = leds s'"
  using assms
proof (induction steps arbitrary: s)
  case Nil
  then show ?case by simp
next
  case (Cons step steps)
  from loop_frame [OF Cons.prems, of pallet step]
  obtain s1 where s1: "loop pallet step s = Some s1"
    "length (leds s1) = NUM_LEDS" "rev (leds s1) = leds s1" by blast
  from Cons.IH [OF s1(2,3)] s1(1) show ?case by simp
qed

lemma init_frame: "length (leds (init t0 i0)) = NUM_LEDS \<and> rev (leds (init t0 i0)) = leds (init t0 i0)"
  by (simp add: init_def fill_solid_def)

lemma fill_mirrored_in_bounds:
  assumes "length buf = n" "litLeds \<le> n div 2"
  shows "fill_mirrored n colorOf 0 litLeds buf \<noteq> None"
  using fill_mirrored_nth [OF assms, of colorOf 0] by auto

lemma tick_idle:
  assumes "\<not> isTransitioning s"
    and "state s = PARKING_STATE \<longrightarrow> \<not> hasPassed now (inactivityTimer s) (INACTIVITY_SECONDS * 1000)"
  shows "tick now s = s"
  using assms
  by (cases "state s") (simp_all add: tick_def tickAway_def tickParking_def tickParked_def)

lemma run_idle:
  assumes "\<not> isTransitioning s"
    and "state s = PARKING_STATE \<longrightarrow>
           (\<forall>t\<in>set ts. \<not> hasPassed t (inactivityTimer s) (INACTIVITY_SECONDS * 1000))"
  shows "run pallet (map (\<lambda>t. (t, NoEvent)) ts) s = Some s"
  using assms
proof (induction ts)
  case Nil
  then show ?case by simp
next
  case (Cons t ts)
  have "tick t s = s" using Cons.prems by (intro tick_idle) simp_all
  then have "loop pallet (t, NoEvent) s = Some s"
    by (simp add: loop_def sonar_Update_def)
  moreover have "run pallet (map (\<lambda>t. (t, NoEvent)) ts) s = Some s"
    using Cons.prems by (intro Cons.IH) simp_all
  ultimately show ?case by simp
qed

lemma tick_entry:
  assumes "isTransitioning s"
  shows "tick now s =
          (case state s of
             AWAY_STATE \<Rightarrow>
               s\<lparr>isTransitioning := False, serial := serial s @ [Println ''AWAY''],
                 triggerInterval := SLOW_TRIGGER_INTERVAL\<rparr>
           | PARKING_STATE \<Rightarrow>
               s\<lparr>isTransitioning := False, serial := serial s @ [Println ''PARKING''],
                 triggerInterval := FAST_TRIGGER_INTERVAL, inactivityTimer := now\<rparr>
           | PARKED_STATE \<Rightarrow>
               s\<lparr>isTransitioning := False, serial := serial s @ [Println ''PARKED''],
                 leds := fill_solid (leds s) NUM_LEDS (CRGB 0 0 0),
                 strip := fill_solid (leds s) NUM_LEDS (CRGB 0 0 0),
                 triggerInterval := SLOW_TRIGGER_INTERVAL\<rparr>)"
  using assms
  by (cases "state s")
     (simp_all add: tick_def tickAway_def tickParking_def tickParked_def Let_def
        FastLED_show_def restart_def hasPassed_def elapsed_def INACTIVITY_SECONDS_def)

lemma loop_prevDistance:
  assumes "state s \<noteq> PARKING_STATE \<or> snd step = NoEvent \<or> snd step = Timeout"
    and "loop pallet step s = Some s1"
  shows "prevDistance s1 = prevDistance s"
proof -
  obtain s0 where s0: "sonar_Update pallet (fst step) (snd step) s = Some s0" "s1 = tick (fst step) s0"
    using assms(2) by (auto simp: loop_def split: option.splits)
  have "prevDistance s0 = prevDistance s"
    using assms(1) s0(1)
    by (cases "snd step"; cases "state s")
       (auto simp: sonar_Update_def PingRecieved_def PingTimeout_def awayPingReceived_def
          parkedPingReceived_def split: if_splits)
  then show ?thesis using s0(2) by (simp add: tick_prevDistance)
qed

lemma run_prevDistance:
  assumes "outside_parking pallet steps s"
  shows "\<exists>s'. run pallet steps s = Some s' \<and> prevDistance s' = prevDistance s"
  using assms
proof (induction steps arbitrary: s)
  case Nil
  then show ?case by simp
next
  case (Cons step steps)
  from Cons.prems obtain s1 where s1: "loop pallet step s = Some s1"
    "outside_parking pallet steps s1"
    and out: "state s \<noteq> PARKING_STATE \<or> snd step = NoEvent \<or> snd step = Timeout"
    by (auto split: option.splits)
  from Cons.IH [OF s1(2)] obtain s' where "run pallet steps s1 = Some s'"
    "prevDistance s' = prevDistance s1" by blast
  then show ?case using s1(1) loop_prevDistance [OF out s1(1)] by simp
qed

lemma abs_macro_unsigned: "abs_macro x = x"
  by (simp add: abs_macro_def word_greater_zero_iff)

lemma abs_macro_at_or_above:
  assumes "p \<le> d"
  shows "abs_macro (d - p) > 4 \<longleftrightarrow> unat d - unat p > 4"
  using assms by (simp add: abs_macro_unsigned word_less_nat_alt unat_sub)

lemma abs_macro_below:
  assumes "d < p" "p \<le> MAX_TRIGGER_DISTANCE"
  shows "abs_macro (d - p) > 4"
proof -
  have u: "unat d < unat p" "unat p \<le> 100"
    using assms by (simp_all add: MAX_TRIGGER_DISTANCE_def word_less_nat_alt word_le_nat_alt)
  have "unat (d - p) = unat d + 2 ^ 16 - unat p"
    using unat_sub_if_size [of d p] u by (simp add: word_size)
  then have "4 < unat (d - p)" using u by simp
  then have "4 < d - p" by (simp add: word_less_nat_alt)
  then show ?thesis by (simp add: abs_macro_unsigned)
qed

lemma fill_mirrored_pixels:
  assumes "length buf = n" "litLeds \<le> n div 2" "i < litLeds"
  shows "\<exists>buf'. fill_mirrored n colorOf 0 litLeds buf = Some buf' \<and> length buf' = n \<and>
           buf' ! i = colorOf i \<and> buf' ! (n - 1 - i) = colorOf i"
proof -
  from fill_mirrored_nth [OF assms(1,2), of colorOf 0]
  obtain buf' where b: "fill_mirrored n colorOf 0 litLeds buf = Some buf'" "length buf' = n"
    and nth: "\<forall>k<n. buf' ! k = (if 0 \<le> k \<and> k < litLeds then colorOf k
                               else if 0 \<le> n - 1 - k \<and> n - 1 - k < litLeds then colorOf (n - 1 - k)
                               else buf ! k)"
    by blast
  have i: "i < n" using assms(2,3) by linarith
  have k: "n - 1 - i < n" using i by simp
  have far: "\<not> n - 1 - i < litLeds" using assms(2,3) by linarith
  have inv: "n - 1 - (n - 1 - i) = i" using i by simp
  have 1: "buf' ! i = colorOf i" using nth i assms(3) by simp
  have "buf' ! (n - 1 - i) = (if n - 1 - i < litLeds then colorOf (n - 1 - i)
                               else if n - 1 - (n - 1 - i) < litLeds then colorOf (n - 1 - (n - 1 - i))
                               else buf ! (n - 1 - i))"
    using nth k by simp
  then have 2: "buf' ! (n - 1 - i) = colorOf i"
    using far assms(3) by (simp add: inv)
  from b 1 2 show ?thesis by blast
qed

lemma parkingPing_render:
  assumes band: "\<not> (d < MIN_TRIGGER_DISTANCE \<or> d > MAX_TRIGGER_DISTANCE)"
    and buf: "fill_mirrored NUM_LEDS (\<lambda>i. pallet (colorIndex NUM_LEDS i)) 0
                 (unat (litLeds_of (constrain d MIN_DISPLAY_DISTANCE MAX_DISPLAY_DISTANCE)))
                 (leds s) = Some buf"
  shows "\<exists>s'. parkingPingReceived pallet now d s = Some s' \<and> leds s' = buf \<and> strip s' = buf"
proof (cases "abs_macro (d - prevDistance s) > 4")
  case True
  then show ?thesis using band buf
    by (simp add: parkingPingReceived_def Let_def FastLED_show_def restart_def)
next
  case False
  then show ?thesis using band buf
    by (simp add: parkingPingReceived_def Let_def FastLED_show_def restart_def)
qed

lemma parkingPing_pixels:
  assumes "\<not> (d < MIN_TRIGGER_DISTANCE \<or> d > MAX_TRIGGER_DISTANCE)"
    and "length (leds s) = NUM_LEDS"
    and "i < unat (litLeds_of (constrain d MIN_DISPLAY_DISTANCE MAX_DISPLAY_DISTANCE))"
  shows "\<exists>s'. parkingPingReceived pallet now d s = Some s' \<and>
              leds s' ! i = pallet (colorIndex NUM_LEDS i) \<and>
              leds s' ! (NUM_LEDS - 1 - i) = pallet (colorIndex NUM_LEDS i)"
proof -
  from fill_mirrored_pixels [OF assms(2) litLeds_of_le assms(3)]
  obtain buf where buf: "fill_mirrored NUM_LEDS (\<lambda>i. pallet (colorIndex NUM_LEDS i)) 0
                 (unat (litLeds_of (constrain d MIN_DISPLAY_DISTANCE MAX_DISPLAY_DISTANCE)))
                 (leds s) = Some buf"
    "buf ! i = pallet (colorIndex NUM_LEDS i)"
    "buf ! (NUM_LEDS - 1 - i) = pallet (colorIndex NUM_LEDS i)" by blast
  from parkingPing_render [OF assms(1) buf(1), of now]
  obtain s' where "parkingPingReceived pallet now d s = Some s'" "leds s' = buf" by blast
  then show ?thesis using buf(2,3) by simp
qed

lemma loop_ino_pixels:
  assumes "length (leds s) = NUM_LEDS_ino" "i < unat (litLeds_ino e)"
  shows "\<exists>s'. loop_ino pallet e s = Some s' \<and>
              leds s' ! i = pallet (colorIndex_ino i) \<and>
              leds s' ! (NUM_LEDS_ino - 1 - i) = pallet (colorIndex_ino i)"
proof -
  have len: "length (fill_solid (leds s) NUM_LEDS_ino (CRGB 0 0 0)) = NUM_LEDS_ino"
    using assms(1) by (simp add: fill_solid_def)
  from fill_mirrored_pixels [OF len litLeds_ino_le assms(2)]
  obtain buf where buf: "fill_mirrored NUM_LEDS_ino (\<lambda>i. pallet (colorIndex_ino i)) 0
                 (unat (litLeds_ino e)) (fill_solid (leds s) NUM_LEDS_ino (CRGB 0 0 0)) = Some buf"
    "buf ! i = pallet (colorIndex_ino i)"
    "buf ! (NUM_LEDS_ino - 1 - i) = pallet (colorIndex_ino i)" by blast
  show ?thesis using buf
    by (simp add: loop_ino_def Let_def FastLED_show_def)
qed

lemma unat_colorIndex:
  assumes "i < NUM_LEDS div 2"
  shows "unat (colorIndex NUM_LEDS i) = 255 * i div (NUM_LEDS div 2)"
proof -
  have "i < 12" using assms by (simp add: NUM_LEDS_def)
  then have "255 * i div 12 < 256" by simp
  then show ?thesis by (simp add: colorIndex_def NUM_LEDS_def unat_of_nat)
qed

lemma colorIndex_mono:
  assumes "j \<le> i" "i < NUM_LEDS div 2"
  shows "colorIndex NUM_LEDS j \<le> colorIndex NUM_LEDS i"
proof -
  have j: "j < NUM_LEDS div 2" using assms by simp
  have "255 * j div (NUM_LEDS div 2) \<le> 255 * i div (NUM_LEDS div 2)"
    using assms(1) by (intro div_le_mono mult_le_mono2)
  then show ?thesis
    by (simp only: word_le_nat_alt unat_colorIndex [OF assms(2)] unat_colorIndex [OF j])
qed

lemma uint_colorIndex_ino:
  assumes "i < NUM_LEDS_ino div 2"
  shows "uint (colorIndex_ino i) = 255 - 255 * int i div int (NUM_LEDS_ino div 2)"
proof -
  define x where "x = 255 - 255 * int i div int (NUM_LEDS_ino div 2)"
  have b: "0 \<le> x" "x < 256" using assms by (simp_all add: x_def NUM_LEDS_ino_def)
  have "uint (word_of_int x :: uint8_t) = x"
    using b by (simp add: uint_word_of_int take_bit_eq_mod)
  then show ?thesis unfolding colorIndex_ino_def x_def .
qed

lemma colorIndex_ino_antimono:
  assumes "j \<le> i" "i < NUM_LEDS_ino div 2"
  shows "colorIndex_ino i \<le> colorIndex_ino j"
proof -
  have j: "j < NUM_LEDS_ino div 2" using assms by simp
  have "255 * int j div int (NUM_LEDS_ino div 2) \<le> 255 * int i div int (NUM_LEDS_ino div 2)"
    using assms(1) by (intro zdiv_mono1) (simp_all add: NUM_LEDS_ino_def)
  then show ?thesis
    by (simp only: word_le_def uint_colorIndex_ino [OF assms(2)] uint_colorIndex_ino [OF j]
          diff_left_mono)
qed

lemma litLeds_lt_half:
  "i < unat (litLeds_of (constrain d MIN_DISPLAY_DISTANCE MAX_DISPLAY_DISTANCE)) \<Longrightarrow> i < NUM_LEDS div 2"
  "i < unat (litLeds_ino e) \<Longrightarrow> i < NUM_LEDS_ino div 2"
  using litLeds_of_le [of d] litLeds_ino_le [of e] by linarith+

section \<open>Away: the trigger band\<close>

text \<open>
  C1.  In the Away state a reading strictly between \<open>MIN_TRIGGER_DISTANCE\<close> and
  \<open>MAX_TRIGGER_DISTANCE\<close> moves the controller to Parking (and sets the entering flag);
  every other reading, and a sonar timeout, leaves all of the controller unchanged.
\<close>

theorem away_trigger_band:
  assumes "state s = AWAY_STATE"
  shows "PingRecieved pallet now d s =
           (if MIN_TRIGGER_DISTANCE < d \<and> d < MAX_TRIGGER_DISTANCE
            then Some (s\<lparr>state := PARKING_STATE, isTransitioning := True\<rparr>)
            else Some s)
         \<and> PingTimeout s = s"
  using assms by (simp add: PingRecieved_def awayPingReceived_def PingTimeout_def)

theorem away_trigger_band_witness:
  "PingRecieved (\<lambda>c. CRGB c 0 0) 1000 50 (init 0 250)
     = Some ((init 0 250)\<lparr>state := PARKING_STATE, isTransitioning := True\<rparr>)
   \<and> PingRecieved (\<lambda>c. CRGB c 0 0) 1000 100 (init 0 250) = Some (init 0 250)
   \<and> PingRecieved (\<lambda>c. CRGB c 0 0) 1000 4 (init 0 250) = Some (init 0 250)
   \<and> PingTimeout (init 0 250) = init 0 250"
  using away_trigger_band [of "init 0 250" "\<lambda>c. CRGB c 0 0" 1000 50]
        away_trigger_band [of "init 0 250" "\<lambda>c. CRGB c 0 0" 1000 100]
        away_trigger_band [of "init 0 250" "\<lambda>c. CRGB c 0 0" 1000 4]
  by (simp add: init_def MIN_TRIGGER_DISTANCE_def MAX_TRIGGER_DISTANCE_def)

section \<open>Parking: hysteresis\<close>

text \<open>
  C2.  The claim asks that a reading within 4 units of \<open>previousDistance\<close>, also one
  below it, leaves \<open>previousDistance\<close> and the inactivity timer unchanged.  The code
  computes \<open>abs(distance-prevDistance)\<close> on \<open>unsigned int\<close>, where the difference wraps
  and \<open>abs\<close> is the identity, so a reading one unit below the previous one is recorded:
  after the readings 50 and 50 the controller is in Parking with \<open>prevDistance = 50\<close>
  and the timer restarted at 100; the reading 49 at time 200 then sets
  \<open>prevDistance = 49\<close> and restarts the timer at 200.
\<close>

theorem hysteresis_below_previous:
  "\<exists>s2 s3. run (\<lambda>c. CRGB c 0 0) [(0, Ping 50), (100, Ping 50)] (init 0 250) = Some s2
      \<and> state s2 = PARKING_STATE \<and> prevDistance s2 = 50 \<and> inactivityTimer s2 = 100
      \<and> PingRecieved (\<lambda>c. CRGB c 0 0) 200 49 s2 = Some s3
      \<and> prevDistance s3 = 49 \<and> inactivityTimer s3 = 200"
proof -
  let ?pal = "\<lambda>c. CRGB c 0 0"
  let ?s1 = "(init 0 250)\<lparr>state := PARKING_STATE, isTransitioning := False,
      serial := serial (init 0 250) @ [Println ''PARKING''],
      triggerInterval := FAST_TRIGGER_INTERVAL, inactivityTimer := 0\<rparr>"
  have l1: "loop ?pal (0, Ping 50) (init 0 250) = Some ?s1"
    by (simp add: init_def loop_def sonar_Update_def PingRecieved_def awayPingReceived_def
          tick_def tickParking_def Let_def restart_def hasPassed_def elapsed_def
          MIN_TRIGGER_DISTANCE_def MAX_TRIGGER_DISTANCE_def INACTIVITY_SECONDS_def)
  have band50: "\<not> ((50 :: uint16_t) < MIN_TRIGGER_DISTANCE \<or> 50 > MAX_TRIGGER_DISTANCE)"
    by (simp add: MIN_TRIGGER_DISTANCE_def MAX_TRIGGER_DISTANCE_def)
  have band49: "\<not> ((49 :: uint16_t) < MIN_TRIGGER_DISTANCE \<or> 49 > MAX_TRIGGER_DISTANCE)"
    by (simp add: MIN_TRIGGER_DISTANCE_def MAX_TRIGGER_DISTANCE_def)
  have f1: "length (leds ?s1) = NUM_LEDS" "rev (leds ?s1) = leds ?s1"
    by (simp_all add: init_def fill_solid_def)
  from parkingPing_in_band [OF band50 f1, of ?pal 100]
  obtain buf where buf: "length buf = NUM_LEDS" "rev buf = buf"
    and p2: "parkingPingReceived ?pal 100 50 ?s1 =
       Some (?s1\<lparr>prevDistance := 50, inactivityTimer := 100, leds := buf, strip := buf\<rparr>)"
    by (auto simp: abs_macro_unsigned init_def)
  let ?s2 = "?s1\<lparr>prevDistance := 50, inactivityTimer := 100, leds := buf, strip := buf\<rparr>"
  have l2: "loop ?pal (100, Ping 50) ?s1 = Some ?s2"
    using p2
    by (simp add: loop_def sonar_Update_def PingRecieved_def tick_def tickParking_def
          hasPassed_def elapsed_def INACTIVITY_SECONDS_def)
  have r: "run ?pal [(0, Ping 50), (100, Ping 50)] (init 0 250) = Some ?s2"
    using l1 l2 by simp
  have f2: "length (leds ?s2) = NUM_LEDS" "rev (leds ?s2) = leds ?s2"
    using buf by simp_all
  from parkingPing_in_band [OF band49 f2, of ?pal 200]
  obtain buf' where p3: "parkingPingReceived ?pal 200 49 ?s2 =
       Some (?s2\<lparr>prevDistance := 49, inactivityTimer := 200, leds := buf', strip := buf'\<rparr>)"
    by (auto simp: abs_macro_unsigned)
  then have "PingRecieved ?pal 200 49 ?s2 =
       Some (?s2\<lparr>prevDistance := 49, inactivityTimer := 200, leds := buf', strip := buf'\<rparr>)"
    by (simp add: PingRecieved_def)
  with r show ?thesis by simp
qed

section \<open>Parked: leaving\<close>

text \<open>
  C3.  In the Parked state of the sketch with the asynchronous sonar a reading strictly
  above \<open>MAX_TRIGGER_DISTANCE\<close> moves the controller to Away and every other reading
  leaves it as it is.  In the polling sketch the Parked tick moves to Away exactly when
  it takes a reading (the entry action has run and the read timer has passed) and the
  reading is nonzero; otherwise the state stays Parked.
\<close>

theorem parked_leaves:
  "(state s = PARKED_STATE \<longrightarrow>
      PingRecieved pallet now d s =
        Some (if d > MAX_TRIGGER_DISTANCE
              then s\<lparr>state := AWAY_STATE, isTransitioning := True\<rparr> else s))
   \<and> (state p = PARKED_STATE \<longrightarrow>
        loop_poll pallet now reading p = Some (tickParked_poll now reading p) \<and>
        state (tickParked_poll now reading p) =
          (if \<not> isTransitioning p \<and>
              hasPassed now (readTimer p) (1000 div INFREQUENT_READS_PER_SECOND) \<and>
              reading > 0
           then AWAY_STATE else PARKED_STATE))"
  by (simp add: PingRecieved_def parkedPingReceived_def loop_poll_def tickParked_poll_def
        Let_def FastLED_show_def hasPassed_def elapsed_def restart_def
        INFREQUENT_READS_PER_SECOND_def)

theorem parked_leaves_witness:
  "PingRecieved (\<lambda>c. CRGB c 0 0) 1000 101 ((init 0 250)\<lparr>state := PARKED_STATE, isTransitioning := False\<rparr>)
     = Some ((init 0 250)\<lparr>state := AWAY_STATE, isTransitioning := True\<rparr>)
   \<and> PingRecieved (\<lambda>c. CRGB c 0 0) 1000 100 ((init 0 250)\<lparr>state := PARKED_STATE, isTransitioning := False\<rparr>)
     = Some ((init 0 250)\<lparr>state := PARKED_STATE, isTransitioning := False\<rparr>)
   \<and> state (tickParked_poll 1000 1 ((init_poll 0)\<lparr>state := PARKED_STATE, isTransitioning := False\<rparr>)) = AWAY_STATE
   \<and> state (tickParked_poll 1000 0 ((init_poll 0)\<lparr>state := PARKED_STATE, isTransitioning := False\<rparr>)) = PARKED_STATE"
  using parked_leaves [of "(init 0 250)\<lparr>state := PARKED_STATE, isTransitioning := False\<rparr>" "\<lambda>c. CRGB c 0 0" 1000 101
            "(init_poll 0)\<lparr>state := PARKED_STATE, isTransitioning := False\<rparr>" 1]
        parked_leaves [of "(init 0 250)\<lparr>state := PARKED_STATE, isTransitioning := False\<rparr>" "\<lambda>c. CRGB c 0 0" 1000 100
            "(init_poll 0)\<lparr>state := PARKED_STATE, isTransitioning := False\<rparr>" 0]
  by (simp add: MAX_TRIGGER_DISTANCE_def init_def init_poll_def hasPassed_def elapsed_def
        restart_def INFREQUENT_READS_PER_SECOND_def)

section \<open>Distance to lit-pixel count\<close>

text \<open>
  C4, as the claim states it, fails on parking\_helper.ino: there the lit-pixel count
  grows with the distance, 0 pixels at 30 cm and 5 pixels at 305 cm.
\<close>

theorem litLeds_ino_grows_with_distance:
  "(30 :: ulong) \<le> 305 \<and> litLeds_ino 30 = 0 \<and> litLeds_ino 305 = 5 \<and> litLeds_ino 30 < litLeds_ino 305"
  by (simp add: litLeds_ino_def map_arduino_def wrap_long_def constrain_def NUM_LEDS_ino_def
        signed_divide_int_def)

text \<open>
  C4, amended.  In the state machine with the asynchronous sonar the lit-pixel count of
  the clamped distance never grows with the distance: for \<open>d1 \<le> d2\<close> the count for
  \<open>d1\<close> is at least the count for \<open>d2\<close>.  In parking\_helper.ino the mapping runs the
  other way: for readings up to 17000 cm (the longest echo \<open>readDistance\<close> waits for)
  the count never shrinks as the distance grows.
\<close>

theorem lit_count_monotone:
  "(d1 \<le> d2 \<longrightarrow>
      litLeds_of (constrain d2 MIN_DISPLAY_DISTANCE MAX_DISPLAY_DISTANCE)
        \<le> litLeds_of (constrain d1 MIN_DISPLAY_DISTANCE MAX_DISPLAY_DISTANCE))
   \<and> (e1 \<le> e2 \<and> e2 \<le> 17000 \<longrightarrow> litLeds_ino e1 \<le> litLeds_ino e2)"
  using litLeds_of_mono [of d1 d2] litLeds_ino_mono [of e1 e2] by blast

theorem lit_count_monotone_witness:
  "litLeds_of (constrain 80 MIN_DISPLAY_DISTANCE MAX_DISPLAY_DISTANCE)
        \<le> litLeds_of (constrain 10 MIN_DISPLAY_DISTANCE MAX_DISPLAY_DISTANCE)
   \<and> litLeds_ino 30 \<le> litLeds_ino 305"
  using lit_count_monotone [of 10 80 30 305] by simp

text \<open>
  C5.  For every distance (asynchronous sketch and parking\_helper.ino) and every level
  (polling sketch) the lit-pixel count is at most half the strip length, and the render
  loop run with that count on a frame buffer of the strip's length performs every write
  to pixel \<open>i\<close> and pixel \<open>NUM_LEDS-1-i\<close> inside the buffer.
\<close>

theorem lit_count_bounded:
  "unat (litLeds_of (constrain d MIN_DISPLAY_DISTANCE MAX_DISPLAY_DISTANCE)) \<le> NUM_LEDS div 2
   \<and> unat (litLeds_poll lvl) \<le> NUM_LEDS_poll div 2
   \<and> unat (litLeds_ino e) \<le> NUM_LEDS_ino div 2
   \<and> (length buf = NUM_LEDS \<longrightarrow>
        fill_mirrored NUM_LEDS colorOf 0
          (unat (litLeds_of (constrain d MIN_DISPLAY_DISTANCE MAX_DISPLAY_DISTANCE))) buf \<noteq> None)
   \<and> (length buf_poll = NUM_LEDS_poll \<longrightarrow>
        fill_mirrored NUM_LEDS_poll colorOf 0 (unat (litLeds_poll lvl)) buf_poll \<noteq> None)
   \<and> (length buf_ino = NUM_LEDS_ino \<longrightarrow>
        fill_mirrored NUM_LEDS_ino colorOf 0 (unat (litLeds_ino e)) buf_ino \<noteq> None)"
  using litLeds_of_le [of d] litLeds_poll_le [of lvl] litLeds_ino_le [of e]
    fill_mirrored_in_bounds [of buf NUM_LEDS _ colorOf]
    fill_mirrored_in_bounds [of buf_poll NUM_LEDS_poll _ colorOf]
    fill_mirrored_in_bounds [of buf_ino NUM_LEDS_ino _ colorOf]
  by blast

theorem lit_count_bounded_witness:
  "unat (litLeds_of (constrain 10 MIN_DISPLAY_DISTANCE MAX_DISPLAY_DISTANCE)) \<le> NUM_LEDS div 2
   \<and> fill_mirrored NUM_LEDS (\<lambda>i. CRGB 0 0 0) 0
         (unat (litLeds_of (constrain 10 MIN_DISPLAY_DISTANCE MAX_DISPLAY_DISTANCE)))
         (replicate NUM_LEDS (CRGB 0 0 0)) \<noteq> None
   \<and> fill_mirrored NUM_LEDS_poll (\<lambda>i. CRGB 0 0 0) 0 (unat (litLeds_poll 255))
         (replicate NUM_LEDS_poll (CRGB 0 0 0)) \<noteq> None
   \<and> fill_mirrored NUM_LEDS_ino (\<lambda>i. CRGB 0 0 0) 0 (unat (litLeds_ino 305))
         (replicate NUM_LEDS_ino (CRGB 0 0 0)) \<noteq> None"
  using lit_count_bounded [of 10 255 305 "replicate NUM_LEDS (CRGB 0 0 0)" "\<lambda>i. CRGB 0 0 0"
          "replicate NUM_LEDS_poll (CRGB 0 0 0)" "replicate NUM_LEDS_ino (CRGB 0 0 0)"]
  by simp

section \<open>Mirror symmetry of the frame\<close>

text \<open>
  C6.  From the globals after \<open>setup()\<close>, after any number of loop iterations (each one
  a sonar callback, which may render, followed by a tick, which may blank the display),
  and also right after the next sonar callback, the frame buffer has \<open>NUM_LEDS\<close> pixels
  and pixel \<open>i\<close> equals pixel \<open>NUM_LEDS-1-i\<close> for every \<open>i\<close>; no write ever leaves the
  buffer.
\<close>

theorem frame_mirrored_invariant:
  "\<exists>s. run pallet steps (init t0 interval0) = Some s \<and> length (leds s) = NUM_LEDS \<and>
        (\<forall>i<NUM_LEDS. leds s ! i = leds s ! (NUM_LEDS - 1 - i)) \<and>
        (\<exists>s'. sonar_Update pallet now ev s = Some s' \<and> length (leds s') = NUM_LEDS \<and>
           (\<forall>i<NUM_LEDS. leds s' ! i = leds s' ! (NUM_LEDS - 1 - i)))"
proof -
  from run_frame [of "init t0 interval0" pallet steps] init_frame [of t0 interval0]
  obtain s where s: "run pallet steps (init t0 interval0) = Some s"
    "length (leds s) = NUM_LEDS" "rev (leds s) = leds s" by blast
  from sonar_Update_frame [OF s(2,3), of pallet now ev]
  obtain s' where s': "sonar_Update pallet now ev s = Some s'"
    "length (leds s') = NUM_LEDS" "rev (leds s') = leds s'" by blast
  have "\<forall>i<NUM_LEDS. leds s ! i = leds s ! (NUM_LEDS - 1 - i)"
    using s(2,3) by (rule mirrored_nth_n)
  moreover have "\<forall>i<NUM_LEDS. leds s' ! i = leds s' ! (NUM_LEDS - 1 - i)"
    using s'(2,3) by (rule mirrored_nth_n)
  ultimately show ?thesis using s(1,2) s'(1,2) by blast
qed

theorem frame_mirrored_invariant_witness:
  "\<exists>s. run (\<lambda>c. CRGB c 0 0) [(0, Ping 50), (100, Ping 40)] (init 0 250) = Some s \<and>
       length (leds s) = NUM_LEDS \<and> leds s ! 3 = leds s ! (NUM_LEDS - 1 - 3)"
proof -
  from frame_mirrored_invariant [of "\<lambda>c. CRGB c 0 0" "[(0, Ping 50), (100, Ping 40)]" 0 250 0 NoEvent]
  obtain s where s: "run (\<lambda>c. CRGB c 0 0) [(0, Ping 50), (100, Ping 40)] (init 0 250) = Some s"
    "length (leds s) = NUM_LEDS" "\<forall>i<NUM_LEDS. leds s ! i = leds s ! (NUM_LEDS - 1 - i)"
    by blast
  have "(3::nat) < NUM_LEDS" by (simp add: NUM_LEDS_def)
  with s(3) have "leds s ! 3 = leds s ! (NUM_LEDS - 1 - 3)" by blast
  with s(1,2) show ?thesis by blast
qed

section \<open>Parking: readings outside the trigger band\<close>

text \<open>
  C8.  In the Parking state a reading below \<open>MIN_TRIGGER_DISTANCE\<close> or above
  \<open>MAX_TRIGGER_DISTANCE\<close> is discarded: the callback returns with every global (state,
  entering flag, previous distance, inactivity timer, frame buffer, strip, serial
  output) unchanged.
\<close>

theorem parking_out_of_band_discarded:
  assumes "state s = PARKING_STATE"
    and "d < MIN_TRIGGER_DISTANCE \<or> d > MAX_TRIGGER_DISTANCE"
  shows "PingRecieved pallet now d s = Some s"
  using assms by (simp add: PingRecieved_def parkingPingReceived_def)

theorem parking_out_of_band_discarded_witness:
  "PingRecieved (\<lambda>c. CRGB c 0 0) 1000 3 ((init 0 250)\<lparr>state := PARKING_STATE\<rparr>)
     = Some ((init 0 250)\<lparr>state := PARKING_STATE\<rparr>)
   \<and> PingRecieved (\<lambda>c. CRGB c 0 0) 1000 101 ((init 0 250)\<lparr>state := PARKING_STATE\<rparr>)
     = Some ((init 0 250)\<lparr>state := PARKING_STATE\<rparr>)"
  using parking_out_of_band_discarded [of "(init 0 250)\<lparr>state := PARKING_STATE\<rparr>" 3 "\<lambda>c. CRGB c 0 0" 1000]
        parking_out_of_band_discarded [of "(init 0 250)\<lparr>state := PARKING_STATE\<rparr>" 101 "\<lambda>c. CRGB c 0 0" 1000]
  by (simp add: MIN_TRIGGER_DISTANCE_def MAX_TRIGGER_DISTANCE_def)

section \<open>Entry actions\<close>

text \<open>
  C7.  The claim asks that the entry actions of a state run exactly once for every
  transition into it.  The code keeps one flag for all states and calls the sonar
  callbacks before the tick, so a callback can leave the new state before its first
  tick, and then the entry actions of that transition never run.  After the readings 50
  and 50, \<open>tickParking\<close> at 5100 ms moves to Parked and sets the flag, with the frame
  still lit.  A reading of 120 in the next iteration makes \<open>parkedPingReceived\<close> move to
  Away before \<open>tickParked\<close> is ever called: \<open>PARKED\<close> is not logged, the display is not
  blanked, and \<open>tickAway\<close> consumes the flag.  Had the sonar delivered nothing in that
  iteration, \<open>tickParked\<close> would have logged \<open>PARKED\<close> and blanked the display.
\<close>

theorem parked_entry_skipped:
  "\<exists>s3 s s'.
      run (\<lambda>c. CRGB c 0 0) [(0, Ping 50), (100, Ping 50), (5100, NoEvent)] (init 0 250) = Some s3
      \<and> state s3 = PARKED_STATE \<and> isTransitioning s3
      \<and> serial s3 = serial (init 0 250) @ [Println ''PARKING'']
      \<and> leds s3 ! 1 = CRGB 21 0 0
      \<and> loop (\<lambda>c. CRGB c 0 0) (5101, Ping 120) s3 = Some s
      \<and> state s = AWAY_STATE \<and> \<not> isTransitioning s
      \<and> serial s = serial (init 0 250) @ [Println ''PARKING'', Println ''AWAY'']
      \<and> leds s = leds s3 \<and> strip s = leds s3
      \<and> leds s \<noteq> replicate NUM_LEDS (CRGB 0 0 0)
      \<and> loop (\<lambda>c. CRGB c 0 0) (5101, NoEvent) s3 = Some s'
      \<and> state s' = PARKED_STATE \<and> \<not> isTransitioning s'
      \<and> serial s' = serial (init 0 250) @ [Println ''PARKING'', Println ''PARKED'']
      \<and> leds s' = replicate NUM_LEDS (CRGB 0 0 0) \<and> strip s' = replicate NUM_LEDS (CRGB 0 0 0)"
proof -
  let ?pal = "\<lambda>c. CRGB c 0 0"
  let ?s1 = "(init 0 250)\<lparr>state := PARKING_STATE, isTransitioning := False,
      serial := serial (init 0 250) @ [Println ''PARKING''],
      triggerInterval := FAST_TRIGGER_INTERVAL, inactivityTimer := 0\<rparr>"
  have l1: "loop ?pal (0, Ping 50) (init 0 250) = Some ?s1"
    by (simp add: init_def loop_def sonar_Update_def PingRecieved_def awayPingReceived_def
          tick_def tickParking_def Let_def restart_def hasPassed_def elapsed_def
          MIN_TRIGGER_DISTANCE_def MAX_TRIGGER_DISTANCE_def INACTIVITY_SECONDS_def)
  have band50: "\<not> ((50 :: uint16_t) < MIN_TRIGGER_DISTANCE \<or> 50 > MAX_TRIGGER_DISTANCE)"
    by (simp add: MIN_TRIGGER_DISTANCE_def MAX_TRIGGER_DISTANCE_def)
  have f1: "length (leds ?s1) = NUM_LEDS" "rev (leds ?s1) = leds ?s1"
    by (simp_all add: init_def fill_solid_def)
  have lit: "litLeds_of (constrain 50 MIN_DISPLAY_DISTANCE MAX_DISPLAY_DISTANCE) = 6"
    by (simp add: litLeds_of_def constrain_def NUM_LEDS_def MIN_DISPLAY_DISTANCE_def
          MAX_DISPLAY_DISTANCE_def)
  have one: "1 < unat (litLeds_of (constrain 50 MIN_DISPLAY_DISTANCE MAX_DISPLAY_DISTANCE))"
    by (simp add: lit)
  from parkingPing_in_band [OF band50 f1, of ?pal 100]
  obtain buf where fill: "fill_mirrored NUM_LEDS (\<lambda>i. ?pal (colorIndex NUM_LEDS i)) 0
        (unat (litLeds_of (constrain 50 MIN_DISPLAY_DISTANCE MAX_DISPLAY_DISTANCE)))
        (leds ?s1) = Some buf"
    and buf: "length buf = NUM_LEDS"
    and p2: "parkingPingReceived ?pal 100 50 ?s1 =
       Some (?s1\<lparr>prevDistance := 50, inactivityTimer := 100, leds := buf, strip := buf\<rparr>)"
    by (auto simp: abs_macro_unsigned init_def)
  from fill_mirrored_pixels [OF f1(1) litLeds_of_le one,
      where colorOf = "\<lambda>i. ?pal (colorIndex NUM_LEDS i)"]
  obtain buf' where b': "fill_mirrored NUM_LEDS (\<lambda>i. ?pal (colorIndex NUM_LEDS i)) 0
        (unat (litLeds_of (constrain 50 MIN_DISPLAY_DISTANCE MAX_DISPLAY_DISTANCE)))
        (leds ?s1) = Some buf'"
    "buf' ! 1 = ?pal (colorIndex NUM_LEDS 1)" by blast
  from b'(1) fill have "buf' = buf" by simp
  with b'(2) have "buf ! 1 = ?pal (colorIndex NUM_LEDS 1)" by simp
  then have pix: "buf ! 1 = CRGB 21 0 0" by (simp add: colorIndex_def NUM_LEDS_def)
  have lit_frame: "buf \<noteq> replicate NUM_LEDS (CRGB 0 0 0)"
  proof
    assume e: "buf = replicate NUM_LEDS (CRGB 0 0 0)"
    have "buf ! 1 = CRGB 0 0 0" unfolding e by (simp add: NUM_LEDS_def)
    with pix show False by simp
  qed
  let ?s2 = "?s1\<lparr>prevDistance := 50, inactivityTimer := 100, leds := buf, strip := buf\<rparr>"
  have l2: "loop ?pal (100, Ping 50) ?s1 = Some ?s2"
    using p2
    by (simp add: loop_def sonar_Update_def PingRecieved_def tick_def tickParking_def
          hasPassed_def elapsed_def INACTIVITY_SECONDS_def)
  let ?s3 = "?s2\<lparr>state := PARKED_STATE, isTransitioning := True\<rparr>"
  have l3: "loop ?pal (5100, NoEvent) ?s2 = Some ?s3"
    by (simp add: loop_def sonar_Update_def tick_def tickParking_def
          hasPassed_def elapsed_def INACTIVITY_SECONDS_def)
  have r: "run ?pal [(0, Ping 50), (100, Ping 50), (5100, NoEvent)] (init 0 250) = Some ?s3"
    using l1 l2 l3 by simp
  let ?s = "?s3\<lparr>state := AWAY_STATE, isTransitioning := False,
      serial := serial ?s3 @ [Println ''AWAY''], triggerInterval := SLOW_TRIGGER_INTERVAL\<rparr>"
  have l4: "loop ?pal (5101, Ping 120) ?s3 = Some ?s"
    by (simp add: loop_def sonar_Update_def PingRecieved_def parkedPingReceived_def
          tick_def tickAway_def MAX_TRIGGER_DISTANCE_def)
  let ?s' = "tickParked ?s3"
  have l4': "loop ?pal (5101, NoEvent) ?s3 = Some ?s'"
    by (simp add: loop_def sonar_Update_def tick_def)
  have blank: "leds ?s' = replicate NUM_LEDS (CRGB 0 0 0)"
      "strip ?s' = replicate NUM_LEDS (CRGB 0 0 0)"
      "state ?s' = PARKED_STATE" "\<not> isTransitioning ?s'"
      "serial ?s' = serial (init 0 250) @ [Println ''PARKING'', Println ''PARKED'']"
    using buf by (simp_all add: tickParked_def Let_def FastLED_show_def fill_solid_def)
  show ?thesis
    apply (rule exI [of _ ?s3], rule exI [of _ ?s], rule exI [of _ ?s'])
    using r l4 l4' blank pix lit_frame by simp
qed

text \<open>
  What a single tick does: with the flag set it performs the entry actions of the
  current state, clears the flag and stays in the state; with the flag clear it
  changes nothing, or, in Parking with the inactivity timer passed, only moves to
  Parked and sets the flag.  Ticks that follow without a sonar event and without a
  transition leave the controller as the first tick left it.
\<close>

lemma tick_entry_actions:
  "(isTransitioning s \<longrightarrow>
      \<not> isTransitioning (tick now s) \<and> state (tick now s) = state s \<and>
      tick now s =
          (case state s of
             AWAY_STATE \<Rightarrow>
               s\<lparr>isTransitioning := False, serial := serial s @ [Println ''AWAY''],
                 triggerInterval := SLOW_TRIGGER_INTERVAL\<rparr>
           | PARKING_STATE \<Rightarrow>
               s\<lparr>isTransitioning := False, serial := serial s @ [Println ''PARKING''],
                 triggerInterval := FAST_TRIGGER_INTERVAL, inactivityTimer := now\<rparr>
           | PARKED_STATE \<Rightarrow>
               s\<lparr>isTransitioning := False, serial := serial s @ [Println ''PARKED''],
                 leds := fill_solid (leds s) NUM_LEDS (CRGB 0 0 0),
                 strip := fill_solid (leds s) NUM_LEDS (CRGB 0 0 0),
                 triggerInterval := SLOW_TRIGGER_INTERVAL\<rparr>))
   \<and> (\<not> isTransitioning s \<longrightarrow>
        tick now s =
          (if state s = PARKING_STATE \<and>
              hasPassed now (inactivityTimer s) (INACTIVITY_SECONDS * 1000)
           then s\<lparr>state := PARKED_STATE, isTransitioning := True\<rparr> else s))
   \<and> (isTransitioning s \<and>
        (state s = PARKING_STATE \<longrightarrow>
           (\<forall>t\<in>set ts. \<not> hasPassed t now (INACTIVITY_SECONDS * 1000))) \<longrightarrow>
        run pallet (map (\<lambda>t. (t, NoEvent)) (now # ts)) s = Some (tick now s))"
proof (intro conjI impI)
  assume t: "isTransitioning s"
  show "tick now s =
          (case state s of
             AWAY_STATE \<Rightarrow>
               s\<lparr>isTransitioning := False, serial := serial s @ [Println ''AWAY''],
                 triggerInterval := SLOW_TRIGGER_INTERVAL\<rparr>
           | PARKING_STATE \<Rightarrow>
               s\<lparr>isTransitioning := False, serial := serial s @ [Println ''PARKING''],
                 triggerInterval := FAST_TRIGGER_INTERVAL, inactivityTimer := now\<rparr>
           | PARKED_STATE \<Rightarrow>
               s\<lparr>isTransitioning := False, serial := serial s @ [Println ''PARKED''],
                 leds := fill_solid (leds s) NUM_LEDS (CRGB 0 0 0),
                 strip := fill_solid (leds s) NUM_LEDS (CRGB 0 0 0),
                 triggerInterval := SLOW_TRIGGER_INTERVAL\<rparr>)"
    using t by (rule tick_entry)
  show "\<not> isTransitioning (tick now s)"
    by (cases "state s") (simp_all add: tick_entry [OF t])
  show "state (tick now s) = state s"
    by (cases "state s") (simp_all add: tick_entry [OF t])
next
  assume "\<not> isTransitioning s"
  then show "tick now s =
          (if state s = PARKING_STATE \<and>
              hasPassed now (inactivityTimer s) (INACTIVITY_SECONDS * 1000)
           then s\<lparr>state := PARKED_STATE, isTransitioning := True\<rparr> else s)"
    by (cases "state s") (simp_all add: tick_def tickAway_def tickParking_def tickParked_def)
next
  assume a: "isTransitioning s \<and>
        (state s = PARKING_STATE \<longrightarrow>
           (\<forall>t\<in>set ts. \<not> hasPassed t now (INACTIVITY_SECONDS * 1000)))"
  then have t: "isTransitioning s" by simp
  have 1: "loop pallet (now, NoEvent) s = Some (tick now s)"
    by (simp add: loop_def sonar_Update_def)
  have 2: "\<not> isTransitioning (tick now s)"
    by (cases "state s") (simp_all add: tick_entry [OF t])
  have 3: "state (tick now s) = PARKING_STATE \<longrightarrow>
           (\<forall>t\<in>set ts. \<not> hasPassed t (inactivityTimer (tick now s)) (INACTIVITY_SECONDS * 1000))"
    using a by (cases "state s") (simp_all add: tick_entry [OF t])
  have "run pallet (map (\<lambda>t. (t, NoEvent)) ts) (tick now s) = Some (tick now s)"
    using 2 3 by (rule run_idle)
  then show "run pallet (map (\<lambda>t. (t, NoEvent)) (now # ts)) s = Some (tick now s)"
    using 1 by simp
qed

section \<open>Palette positions\<close>

text \<open>
  C9, as the claim states it, fails on parking\_helper.ino: at distance 305 the render
  gives pixel 1 and its mirror pixel the palette position 204, not \<open>255 * 1 / 5 = 51\<close>.
\<close>

theorem palette_position_ino_descends:
  "\<exists>s'. loop_ino (\<lambda>c. CRGB c 0 0) 305
           \<lparr>serial = [], leds = replicate NUM_LEDS_ino (CRGB 0 0 0),
             strip = replicate NUM_LEDS_ino (CRGB 0 0 0)\<rparr> = Some s'
        \<and> leds s' ! 1 = CRGB 204 0 0
        \<and> leds s' ! (NUM_LEDS_ino - 1 - 1) = CRGB 204 0 0
        \<and> (of_nat (255 * 1 div (NUM_LEDS_ino div 2)) :: uint8_t) = 51"
proof -
  let ?s = "\<lparr>serial = [], leds = replicate NUM_LEDS_ino (CRGB 0 0 0),
             strip = replicate NUM_LEDS_ino (CRGB 0 0 0)\<rparr>"
  have lit: "litLeds_ino 305 = 5"
    by (simp add: litLeds_ino_def map_arduino_def wrap_long_def constrain_def NUM_LEDS_ino_def
        signed_divide_int_def)
  have 1: "length (leds ?s) = NUM_LEDS_ino" by simp
  have 2: "1 < unat (litLeds_ino 305)" by (simp add: lit)
  have c: "colorIndex_ino (Suc 0) = 204" by (simp add: colorIndex_ino_def NUM_LEDS_ino_def)
  from loop_ino_pixels [OF 1 2, of "\<lambda>c. CRGB c 0 0"]
  show ?thesis by (simp add: c NUM_LEDS_ino_def)
qed

text \<open>
  C9, amended.  In the state machine with the asynchronous sonar every in-band reading
  renders pixel \<open>i\<close> and pixel \<open>NUM_LEDS-1-i\<close>, for every \<open>i\<close> below the lit count, at
  palette position \<open>255 * i / (NUM_LEDS/2)\<close>, which never decreases with \<open>i\<close>: the
  innermost lit pixels carry the highest position.  In parking\_helper.ino the position
  is \<open>255 - 255 * i / (NUM_LEDS/2)\<close>, which never increases with \<open>i\<close>: there the
  outermost pixels carry the highest position.
\<close>

theorem palette_position:
  "(MIN_TRIGGER_DISTANCE \<le> d \<and> d \<le> MAX_TRIGGER_DISTANCE \<and> length (leds s) = NUM_LEDS \<and>
    i < unat (litLeds_of (constrain d MIN_DISPLAY_DISTANCE MAX_DISPLAY_DISTANCE)) \<longrightarrow>
      (\<exists>s'. parkingPingReceived pallet now d s = Some s' \<and>
            leds s' ! i = pallet (colorIndex NUM_LEDS i) \<and>
            leds s' ! (NUM_LEDS - 1 - i) = pallet (colorIndex NUM_LEDS i)) \<and>
      unat (colorIndex NUM_LEDS i) = 255 * i div (NUM_LEDS div 2) \<and>
      (\<forall>j\<le>i. colorIndex NUM_LEDS j \<le> colorIndex NUM_LEDS i))
   \<and> (length (leds t) = NUM_LEDS_ino \<and> k < unat (litLeds_ino e) \<longrightarrow>
      (\<exists>t'. loop_ino pallet e t = Some t' \<and>
            leds t' ! k = pallet (colorIndex_ino k) \<and>
            leds t' ! (NUM_LEDS_ino - 1 - k) = pallet (colorIndex_ino k)) \<and>
      uint (colorIndex_ino k) = 255 - 255 * int k div int (NUM_LEDS_ino div 2) \<and>
      (\<forall>j\<le>k. colorIndex_ino k \<le> colorIndex_ino j))"
proof (intro conjI impI allI)
  assume a: "MIN_TRIGGER_DISTANCE \<le> d \<and> d \<le> MAX_TRIGGER_DISTANCE \<and> length (leds s) = NUM_LEDS \<and>
    i < unat (litLeds_of (constrain d MIN_DISPLAY_DISTANCE MAX_DISPLAY_DISTANCE))"
  then have band: "\<not> (d < MIN_TRIGGER_DISTANCE \<or> d > MAX_TRIGGER_DISTANCE)" by auto
  from a have len: "length (leds s) = NUM_LEDS"
    and i: "i < unat (litLeds_of (constrain d MIN_DISPLAY_DISTANCE MAX_DISPLAY_DISTANCE))"
    by simp_all
  show "\<exists>s'. parkingPingReceived pallet now d s = Some s' \<and>
            leds s' ! i = pallet (colorIndex NUM_LEDS i) \<and>
            leds s' ! (NUM_LEDS - 1 - i) = pallet (colorIndex NUM_LEDS i)"
    using band len i by (rule parkingPing_pixels)
  show "unat (colorIndex NUM_LEDS i) = 255 * i div (NUM_LEDS div 2)"
    using litLeds_lt_half(1) [OF i] by (rule unat_colorIndex)
  show "colorIndex NUM_LEDS j \<le> colorIndex NUM_LEDS i" if "j \<le> i" for j
    using that litLeds_lt_half(1) [OF i] by (rule colorIndex_mono)
next
  assume a: "length (leds t) = NUM_LEDS_ino \<and> k < unat (litLeds_ino e)"
  then have len: "length (leds t) = NUM_LEDS_ino" and k: "k < unat (litLeds_ino e)" by simp_all
  show "\<exists>t'. loop_ino pallet e t = Some t' \<and>
            leds t' ! k = pallet (colorIndex_ino k) \<and>
            leds t' ! (NUM_LEDS_ino - 1 - k) = pallet (colorIndex_ino k)"
    using len k by (rule loop_ino_pixels)
  show "uint (colorIndex_ino k) = 255 - 255 * int k div int (NUM_LEDS_ino div 2)"
    using litLeds_lt_half(2) [OF k] by (rule uint_colorIndex_ino)
  show "colorIndex_ino k \<le> colorIndex_ino j" if "j \<le> k" for j
    using that litLeds_lt_half(2) [OF k] by (rule colorIndex_ino_antimono)
qed

theorem palette_position_witness:
  "(\<exists>s'. parkingPingReceived (\<lambda>c. CRGB c 0 0) 0 10 (init 0 250) = Some s' \<and>
          leds s' ! 11 = CRGB 233 0 0 \<and> leds s' ! 12 = CRGB 233 0 0)
   \<and> (\<exists>t'. loop_ino (\<lambda>c. CRGB c 0 0) 305
              \<lparr>serial = [], leds = replicate NUM_LEDS_ino (CRGB 0 0 0),
                strip = replicate NUM_LEDS_ino (CRGB 0 0 0)\<rparr> = Some t' \<and>
          leds t' ! 4 = CRGB 51 0 0 \<and> leds t' ! 5 = CRGB 51 0 0)"
proof -
  let ?pal = "\<lambda>c. CRGB c 0 0"
  let ?t = "\<lparr>serial = [], leds = replicate NUM_LEDS_ino (CRGB 0 0 0),
             strip = replicate NUM_LEDS_ino (CRGB 0 0 0)\<rparr>"
  have lit: "litLeds_of (constrain 10 MIN_DISPLAY_DISTANCE MAX_DISPLAY_DISTANCE) = 12"
    by (simp add: litLeds_of_def constrain_def NUM_LEDS_def MIN_DISPLAY_DISTANCE_def
          MAX_DISPLAY_DISTANCE_def)
  have lit_ino: "litLeds_ino 305 = 5"
    by (simp add: litLeds_ino_def map_arduino_def wrap_long_def constrain_def NUM_LEDS_ino_def
          signed_divide_int_def)
  have h1: "MIN_TRIGGER_DISTANCE \<le> 10 \<and> 10 \<le> MAX_TRIGGER_DISTANCE \<and>
      length (leds (init 0 250)) = NUM_LEDS \<and>
      11 < unat (litLeds_of (constrain 10 MIN_DISPLAY_DISTANCE MAX_DISPLAY_DISTANCE))"
    by (simp add: lit init_def fill_solid_def MIN_TRIGGER_DISTANCE_def MAX_TRIGGER_DISTANCE_def)
  have h2: "length (leds ?t) = NUM_LEDS_ino \<and> 4 < unat (litLeds_ino 305)"
    by (simp add: lit_ino)
  have c1: "colorIndex NUM_LEDS 11 = 233" by (simp add: colorIndex_def NUM_LEDS_def)
  have c2: "colorIndex_ino 4 = 51" by (simp add: colorIndex_ino_def NUM_LEDS_ino_def)
  from palette_position [where d = 10 and s = "init 0 250" and i = 11 and pallet = ?pal
      and now = 0 and t = ?t and k = 4 and e = 305] h1 h2
  have "(\<exists>s'. parkingPingReceived ?pal 0 10 (init 0 250) = Some s' \<and>
            leds s' ! 11 = ?pal (colorIndex NUM_LEDS 11) \<and>
            leds s' ! (NUM_LEDS - 1 - 11) = ?pal (colorIndex NUM_LEDS 11))
      \<and> (\<exists>t'. loop_ino ?pal 305 ?t = Some t' \<and>
            leds t' ! 4 = ?pal (colorIndex_ino 4) \<and>
            leds t' ! (NUM_LEDS_ino - 1 - 4) = ?pal (colorIndex_ino 4))"
    by blast
  then show ?thesis unfolding c1 c2 by (simp add: NUM_LEDS_def NUM_LEDS_ino_def)
qed

section \<open>The previous distance across Parking sessions\<close>

text \<open>
  C10.  \<open>prevDistance\<close> starts at 0 and no tick changes it; in particular the Parking
  entry action restarts the inactivity timer and keeps \<open>prevDistance\<close>.  Over any run
  of loop iterations in which no reading is delivered while the controller is in
  Parking (the time between two Parking sessions) \<open>prevDistance\<close> keeps its value, and
  an in-band reading in Parking is compared against exactly that stored value.
\<close>

theorem prevDistance_persists:
  "prevDistance (init t0 interval0) = 0
   \<and> prevDistance (tick now s) = prevDistance s
   \<and> (state s = PARKING_STATE \<and> isTransitioning s \<longrightarrow> inactivityTimer (tick now s) = now)
   \<and> (outside_parking pallet steps s \<longrightarrow>
        (\<exists>s'. run pallet steps s = Some s' \<and> prevDistance s' = prevDistance s))
   \<and> (state s = PARKING_STATE \<and> length (leds s) = NUM_LEDS \<and> rev (leds s) = leds s \<and>
        MIN_TRIGGER_DISTANCE \<le> d \<and> d \<le> MAX_TRIGGER_DISTANCE \<longrightarrow>
        (\<exists>s'. PingRecieved pallet now d s = Some s' \<and>
              prevDistance s' =
                (if abs_macro (d - prevDistance s) > 4 then d else prevDistance s)))"
proof (intro conjI impI)
  show "prevDistance (init t0 interval0) = 0" by (simp add: init_def)
  show "prevDistance (tick now s) = prevDistance s" by (rule tick_prevDistance)
next
  assume "state s = PARKING_STATE \<and> isTransitioning s"
  then show "inactivityTimer (tick now s) = now"
    by (simp add: tick_def tickParking_def Let_def restart_def)
next
  assume "outside_parking pallet steps s"
  then show "\<exists>s'. run pallet steps s = Some s' \<and> prevDistance s' = prevDistance s"
    by (rule run_prevDistance)
next
  assume a: "state s = PARKING_STATE \<and> length (leds s) = NUM_LEDS \<and> rev (leds s) = leds s \<and>
        MIN_TRIGGER_DISTANCE \<le> d \<and> d \<le> MAX_TRIGGER_DISTANCE"
  then have band: "\<not> (d < MIN_TRIGGER_DISTANCE \<or> d > MAX_TRIGGER_DISTANCE)" by auto
  from a have len: "length (leds s) = NUM_LEDS" and sym: "rev (leds s) = leds s" by simp_all
  from parkingPing_in_band [OF band len sym, of pallet now]
  obtain buf where "parkingPingReceived pallet now d s =
                 Some ((if abs_macro (d - prevDistance s) > 4
                        then s\<lparr>prevDistance := d, inactivityTimer := now\<rparr> else s)
                       \<lparr>leds := buf, strip := buf\<rparr>)" by blast
  then show "\<exists>s'. PingRecieved pallet now d s = Some s' \<and>
              prevDistance s' =
                (if abs_macro (d - prevDistance s) > 4 then d else prevDistance s)"
    using a by (simp add: PingRecieved_def)
qed

theorem prevDistance_persists_witness:
  "outside_parking (\<lambda>c. CRGB c 0 0) [(0, Ping 120), (10, Ping 50)]
      ((init 0 250)\<lparr>state := PARKED_STATE, isTransitioning := False, prevDistance := 50\<rparr>)
   \<and> (\<exists>s'. run (\<lambda>c. CRGB c 0 0) [(0, Ping 120), (10, Ping 50)]
            ((init 0 250)\<lparr>state := PARKED_STATE, isTransitioning := False, prevDistance := 50\<rparr>)
          = Some s' \<and> prevDistance s' = 50)"
proof -
  let ?s = "(init 0 250)\<lparr>state := PARKED_STATE, isTransitioning := False, prevDistance := 50\<rparr>"
  let ?steps = "[(0, Ping 120), (10, Ping 50)] :: (ulong \<times> sonar_event) list"
  have o: "outside_parking (\<lambda>c. CRGB c 0 0) ?steps ?s"
    by (simp add: init_def loop_def sonar_Update_def PingRecieved_def parkedPingReceived_def
          awayPingReceived_def tick_def tickAway_def tickParking_def Let_def
          MIN_TRIGGER_DISTANCE_def MAX_TRIGGER_DISTANCE_def)
  with prevDistance_persists [of 0 250 0 ?s "\<lambda>c. CRGB c 0 0" ?steps 50]
  have "\<exists>s'. run (\<lambda>c. CRGB c 0 0) ?steps ?s = Some s' \<and> prevDistance s' = prevDistance ?s"
    by blast
  then show ?thesis using o by simp
qed

end
